theory Spec2Isabelle
  imports Main "HOL-Library.Char_ord" "HOL-Library.List_Lexorder" "HOL-Library.Multiset"
begin

section \<open>Go values and the process state\<close>

text \<open>
  The repository is one Go program, kept in two revisions: \<^verbatim>\<open>main.go\<close> and an
  earlier copy (\<^verbatim>\<open>part_000\<close>).  The two agree on every function except
  \<^verbatim>\<open>gitOperations\<close> (the pull-request body) and \<^verbatim>\<open>main\<close> (the destination path and
  the wording of the messages); where they differ the earlier copy's definition carries
  the suffix \<open>_p0\<close>.

  A Go \<^verbatim>\<open>string\<close> is a sequence of bytes, here a \<^typ>\<open>string\<close> (a list of 8-bit
  characters).  A Go \<^verbatim>\<open>error\<close> is modelled by the text \<^verbatim>\<open>%v\<close> prints for it;
  \<open>None\<close> is \<^verbatim>\<open>nil\<close>.  A run-time panic is the value \<open>Panic\<close>.
\<close>

type_synonym err = string

datatype 'a go = Return 'a | Panic

text \<open>
  Every call that acts on the world outside the process is recorded, in order, with
  its outcome: changing the working directory, running an external command to
  completion, starting the fuzzy finder on a list of candidates, and the four file
  operations of the copier.
\<close>

datatype event =
    Chdir string "err option"
  | Exec string "string list" "err option"
  | Fzf "string list" "err option"
  | OpenFile string "err option"
  | MkdirAll string "err option"
  | CreateFile string "err option"
  | IoCopy string string "err option"

record proc =
  cwd :: string
  trace :: "event list"
  stdout :: "string list"

section \<open>Command Runner\<close>

text \<open>
  What the outside world answers to the orchestrator.  \<open>chdir_result d\<close> is the result
  of \<^verbatim>\<open>os.Chdir(d)\<close>; \<open>run_result tr name args\<close> is the result of \<^verbatim>\<open>cmd.Run()\<close> for
  the command \<open>name args\<close> started after the events \<open>tr\<close> (so a stub runner may fail on
  the n-th invocation); \<open>rand_intn k n\<close> is what the k-th call of \<^verbatim>\<open>rand.Intn\<close> returns
  for the bound \<open>n\<close> once the generator has been seeded with the clock.
\<close>

record cmd_env =
  chdir_result :: "string \<Rightarrow> err option"
  run_result :: "event list \<Rightarrow> string \<Rightarrow> string list \<Rightarrow> err option"
  rand_intn :: "nat \<Rightarrow> nat \<Rightarrow> nat"

definition runCommand :: "cmd_env \<Rightarrow> proc \<Rightarrow> string \<Rightarrow> string list \<Rightarrow> err option \<times> proc" where
  "runCommand e p name args =
     (let r = run_result e (trace p) name args
      in (r, p\<lparr>trace := trace p @ [Exec name args r]\<rparr>))"

definition chdir :: "cmd_env \<Rightarrow> proc \<Rightarrow> string \<Rightarrow> err option \<times> proc" where
  "chdir e p dir =
     (let r = chdir_result e dir
      in (r, p\<lparr>cwd := (if r = None then dir else cwd p),
                trace := trace p @ [Chdir dir r]\<rparr>))"

section \<open>Decorative tokens\<close>

text \<open>The two slices of \<^verbatim>\<open>getRandomEmojis\<close>, as the UTF-8 bytes of their entries.\<close>

definition happyEmojis :: "string list" where
  "happyEmojis =
     [[CHR 0xF0, CHR 0x9F, CHR 0x98, CHR 0x8A],
      [CHR 0xF0, CHR 0x9F, CHR 0x98, CHR 0x83],
      [CHR 0xF0, CHR 0x9F, CHR 0x98, CHR 0x84],
      [CHR 0xF0, CHR 0x9F, CHR 0x99, CHR 0x82],
      [CHR 0xF0, CHR 0x9F, CHR 0x98, CHR 0x81],
      [CHR 0xF0, CHR 0x9F, CHR 0x98, CHR 0x8E]]"

definition birdEmojis :: "string list" where
  "birdEmojis =
     [[CHR 0xF0, CHR 0x9F, CHR 0x90, CHR 0xA7],
      [CHR 0xF0, CHR 0x9F, CHR 0xA6, CHR 0x89],
      [CHR 0xF0, CHR 0x9F, CHR 0xA6, CHR 0x85],
      [CHR 0xF0, CHR 0x9F, CHR 0xA6, CHR 0x86],
      [CHR 0xF0, CHR 0x9F, CHR 0xA6, CHR 0xA2],
      [CHR 0xF0, CHR 0x9F, CHR 0xA6, CHR 0x9C],
      [CHR 0xF0, CHR 0x9F, CHR 0xA6, CHR 0x9A],
      [CHR 0xF0, CHR 0x9F, CHR 0x90, CHR 0xA4],
      [CHR 0xF0, CHR 0x9F, CHR 0xA6, CHR 0x83],
      [CHR 0xF0, CHR 0x9F, CHR 0xA6, CHR 0x85],
      [CHR 0xF0, CHR 0x9F, CHR 0xA6, CHR 0xA2],
      [CHR 0xF0, CHR 0x9F, CHR 0x90, CHR 0xA6],
      [CHR 0xF0, CHR 0x9F, CHR 0x95, CHR 0x8A, CHR 0xEF, CHR 0xB8, CHR 0x8F]]"

text \<open>Indexing a slice panics when the index is out of range.\<close>

definition index :: "'a list \<Rightarrow> nat \<Rightarrow> 'a go" where
  "index xs i = (if i < length xs then Return (xs ! i) else Panic)"

definition getRandomEmojis :: "cmd_env \<Rightarrow> (string \<times> string) go" where
  "getRandomEmojis e =
     (case index happyEmojis (rand_intn e 0 (length happyEmojis)) of
        Panic \<Rightarrow> Panic
      | Return happy \<Rightarrow>
          (case index birdEmojis (rand_intn e 1 (length birdEmojis)) of
             Panic \<Rightarrow> Panic
           | Return bird \<Rightarrow> Return (happy, bird)))"

section \<open>Workflow Orchestrator\<close>

text \<open>\<^verbatim>\<open>gitOperations\<close> of \<^verbatim>\<open>main.go\<close>.\<close>

definition gitOperations :: "cmd_env \<Rightarrow> string \<Rightarrow> string \<Rightarrow> proc \<Rightarrow> err option go \<times> proc" where
  "gitOperations e branchName targetDir p0 =
     (case chdir e p0 targetDir of
        (Some er, p1) \<Rightarrow> (Return (Some (''failed to change to target directory: '' @ er)), p1)
      | (None, p1) \<Rightarrow>
     (case runCommand e p1 ''git'' [''checkout'', ''-b'', branchName] of
        (Some er, p2) \<Rightarrow> (Return (Some (''failed to create branch: '' @ er)), p2)
      | (None, p2) \<Rightarrow>
     (case runCommand e p2 ''git'' [''add'', ''.''] of
        (Some er, p3) \<Rightarrow> (Return (Some (''failed to stage changes: '' @ er)), p3)
      | (None, p3) \<Rightarrow>
     (case runCommand e p3 ''git'' [''commit'', ''-m'', ''Add '' @ branchName] of
        (Some er, p4) \<Rightarrow> (Return (Some (''failed to commit changes: '' @ er)), p4)
      | (None, p4) \<Rightarrow>
     (case runCommand e p4 ''git'' [''push'', ''--set-upstream'', ''origin'', branchName] of
        (Some er, p5) \<Rightarrow> (Return (Some (''failed to push changes: '' @ er)), p5)
      | (None, p5) \<Rightarrow>
     (case getRandomEmojis e of
        Panic \<Rightarrow> (Panic, p5)
      | Return (happy, bird) \<Rightarrow>
     (case runCommand e p5 ''gh'' [''pr'', ''create'', ''--title'', branchName,
                                   ''--body'', ''New finding! '' @ happy @ bird] of
        (Some er, p6) \<Rightarrow> (Return (Some (''failed to create pr: '' @ er)), p6)
      | (None, p6) \<Rightarrow>
     (case runCommand e p6 ''gh'' [''browse''] of
        (Some er, p7) \<Rightarrow> (Return (Some (''failed to open browser: '' @ er)), p7)
      | (None, p7) \<Rightarrow> (Return None, p7)))))))))"

text \<open>
  \<^verbatim>\<open>gitOperations\<close> of the earlier copy: the body of the pull request is the constant
  \<^verbatim>\<open>"New finding! "\<close> followed by the bytes of U+1F642 and U+1F989, and nothing is drawn
  at random.
\<close>

definition gitOperations_p0 :: "cmd_env \<Rightarrow> string \<Rightarrow> string \<Rightarrow> proc \<Rightarrow> err option go \<times> proc" where
  "gitOperations_p0 e branchName targetDir p0 =
     (case chdir e p0 targetDir of
        (Some er, p1) \<Rightarrow> (Return (Some (''failed to change to target directory: '' @ er)), p1)
      | (None, p1) \<Rightarrow>
     (case runCommand e p1 ''git'' [''checkout'', ''-b'', branchName] of
        (Some er, p2) \<Rightarrow> (Return (Some (''failed to create branch: '' @ er)), p2)
      | (None, p2) \<Rightarrow>
     (case runCommand e p2 ''git'' [''add'', ''.''] of
        (Some er, p3) \<Rightarrow> (Return (Some (''failed to stage changes: '' @ er)), p3)
      | (None, p3) \<Rightarrow>
     (case runCommand e p3 ''git'' [''commit'', ''-m'', ''Add '' @ branchName] of
        (Some er, p4) \<Rightarrow> (Return (Some (''failed to commit changes: '' @ er)), p4)
      | (None, p4) \<Rightarrow>
     (case runCommand e p4 ''git'' [''push'', ''--set-upstream'', ''origin'', branchName] of
        (Some er, p5) \<Rightarrow> (Return (Some (''failed to push changes: '' @ er)), p5)
      | (None, p5) \<Rightarrow>
     (case runCommand e p5 ''gh'' [''pr'', ''create'', ''--title'', branchName,
                                   ''--body'', ''New finding! '' @
                                     [CHR 0xF0, CHR 0x9F, CHR 0x99, CHR 0x82,
                                      CHR 0xF0, CHR 0x9F, CHR 0xA6, CHR 0x89]] of
        (Some er, p6) \<Rightarrow> (Return (Some (''failed to create PR: '' @ er)), p6)
      | (None, p6) \<Rightarrow>
     (case runCommand e p6 ''gh'' [''browse''] of
        (Some er, p7) \<Rightarrow> (Return (Some (''failed to open browser: '' @ er)), p7)
      | (None, p7) \<Rightarrow> (Return None, p7))))))))"

subsection \<open>The pipeline as the specification lists it\<close>

datatype revision = MainGo | Part000

fun orchestrator :: "revision \<Rightarrow> cmd_env \<Rightarrow> string \<Rightarrow> string \<Rightarrow> proc \<Rightarrow> err option go \<times> proc" where
  "orchestrator MainGo = gitOperations"
| "orchestrator Part000 = gitOperations_p0"

text \<open>The message handed to \<^verbatim>\<open>--body\<close> in each revision.\<close>

fun pr_body :: "revision \<Rightarrow> cmd_env \<Rightarrow> string" where
  "pr_body MainGo e =
     ''New finding! '' @ happyEmojis ! rand_intn e 0 6 @ birdEmojis ! rand_intn e 1 13"
| "pr_body Part000 e =
     ''New finding! '' @
       [CHR 0xF0, CHR 0x9F, CHR 0x99, CHR 0x82, CHR 0xF0, CHR 0x9F, CHR 0xA6, CHR 0x89]"

text \<open>
  The six external commands of the state machine
  \<open>CreateBranch, StageAll, Commit, Push, CreatePR, OpenBrowser\<close>, numbered from 0, with
  the text that identifies each step in the error the orchestrator returns.
\<close>

definition invocations :: "string \<Rightarrow> string \<Rightarrow> (string \<times> string list) list" where
  "invocations branch body =
     [(''git'', [''checkout'', ''-b'', branch]),
      (''git'', [''add'', ''.'']),
      (''git'', [''commit'', ''-m'', ''Add '' @ branch]),
      (''git'', [''push'', ''--set-upstream'', ''origin'', branch]),
      (''gh'', [''pr'', ''create'', ''--title'', branch, ''--body'', body]),
      (''gh'', [''browse''])]"

fun step_label :: "revision \<Rightarrow> nat \<Rightarrow> string" where
  "step_label r k =
     (if k = 0 then ''failed to create branch: ''
      else if k = 1 then ''failed to stage changes: ''
      else if k = 2 then ''failed to commit changes: ''
      else if k = 3 then ''failed to push changes: ''
      else if k = 4 then
        (case r of MainGo \<Rightarrow> ''failed to create pr: '' | Part000 \<Rightarrow> ''failed to create PR: '')
      else ''failed to open browser: '')"

text \<open>
  \<open>history p target cmds k\<close> is the trace once the working directory has been changed
  and the first \<open>k\<close> commands have run and succeeded; \<open>outcome_at \<dots> k\<close> is what the
  world then answers to command number \<open>k\<close>.
\<close>

definition succeeded :: "string \<times> string list \<Rightarrow> event" where
  "succeeded c = Exec (fst c) (snd c) None"

definition history :: "proc \<Rightarrow> string \<Rightarrow> (string \<times> string list) list \<Rightarrow> nat \<Rightarrow> event list" where
  "history p target cmds k = trace p @ Chdir target None # map succeeded (take k cmds)"

definition outcome_at ::
    "cmd_env \<Rightarrow> proc \<Rightarrow> string \<Rightarrow> (string \<times> string list) list \<Rightarrow> nat \<Rightarrow> err option" where
  "outcome_at e p target cmds k =
     run_result e (history p target cmds k) (fst (cmds ! k)) (snd (cmds ! k))"

text \<open>\<^verbatim>\<open>rand.Intn(n)\<close> returns a number below \<open>n\<close>; the two draws of one run.\<close>

definition intn_in_range :: "cmd_env \<Rightarrow> bool" where
  "intn_in_range e = (rand_intn e 0 6 < 6 \<and> rand_intn e 1 13 < 13)"

subsection \<open>A stub command runner\<close>

text \<open>
  \<open>stub_runner n\<close> fails the \<open>n\<close>-th command it is asked to run (counting from 1) with
  \<^verbatim>\<open>exit status 1\<close> and lets every other one succeed; \<open>stub_runner 0\<close> never fails.
\<close>

fun is_exec :: "event \<Rightarrow> bool" where
  "is_exec (Exec name args r) = True"
| "is_exec ev = False"

definition stub_runner :: "nat \<Rightarrow> cmd_env" where
  "stub_runner n =
     \<lparr>chdir_result = (\<lambda>d. None),
      run_result = (\<lambda>tr name args.
        if Suc (length (filter is_exec tr)) = n then Some ''exit status 1'' else None),
      rand_intn = (\<lambda>k b. k)\<rparr>"

definition proc0 :: proc where
  "proc0 = \<lparr>cwd = ''/home/u'', trace = [], stdout = []\<rparr>"

section \<open>Library functions on strings and paths\<close>

text \<open>
  The program calls Go's standard library for its string and path work.  These
  functions are modelled by what they compute on byte strings (on Unix, where the path
  separator is \<^verbatim>\<open>/\<close> and there are no volume names).
\<close>

abbreviation byte :: "char \<Rightarrow> nat" where
  "byte c \<equiv> of_char c"

subsection \<open>UTF-8 decoding\<close>

text \<open>
  \<^verbatim>\<open>range\<close> over a string, \<^verbatim>\<open>strings.Map\<close> and \<^verbatim>\<open>strings.TrimSpace\<close> read a string rune by
  rune.  \<open>rune_len s\<close> is the number of bytes \<^verbatim>\<open>utf8.DecodeRuneInString\<close> consumes at the
  front of \<open>s\<close>: the length of a well-formed encoding, or 1 for a byte that does not
  start one (which decodes to \<^verbatim>\<open>RuneError\<close>, U+FFFD).
\<close>

definition is_cont :: "char \<Rightarrow> bool" where
  "is_cont c = (0x80 \<le> byte c \<and> byte c \<le> 0xBF)"

fun conts :: "nat \<Rightarrow> string \<Rightarrow> bool" where
  "conts 0 cs = True"
| "conts (Suc n) [] = False"
| "conts (Suc n) (c # cs) = (is_cont c \<and> conts n cs)"

definition tail_ok :: "nat \<Rightarrow> nat \<Rightarrow> nat \<Rightarrow> string \<Rightarrow> bool" where
  "tail_ok lo hi n cs =
     (case cs of [] \<Rightarrow> False | c # cs' \<Rightarrow> lo \<le> byte c \<and> byte c \<le> hi \<and> conts n cs')"

text \<open>
  The table of leading bytes: for a byte that starts an encoding of more than one byte,
  the range allowed for the second byte and the number of continuation bytes after it.
\<close>

definition lead :: "nat \<Rightarrow> (nat \<times> nat \<times> nat) option" where
  "lead b =
     (if 0xC2 \<le> b \<and> b \<le> 0xDF then Some (0x80, 0xBF, 0)
      else if b = 0xE0 then Some (0xA0, 0xBF, 1)
      else if (0xE1 \<le> b \<and> b \<le> 0xEC) \<or> b = 0xEE \<or> b = 0xEF then Some (0x80, 0xBF, 1)
      else if b = 0xED then Some (0x80, 0x9F, 1)
      else if b = 0xF0 then Some (0x90, 0xBF, 2)
      else if 0xF1 \<le> b \<and> b \<le> 0xF3 then Some (0x80, 0xBF, 2)
      else if b = 0xF4 then Some (0x80, 0x8F, 2)
      else None)"

fun rune_len :: "string \<Rightarrow> nat" where
  "rune_len [] = 0"
| "rune_len (c # cs) =
     (case lead (byte c) of
        None \<Rightarrow> 1
      | Some (lo, hi, n) \<Rightarrow> if tail_ok lo hi n cs then n + 2 else 1)"

text \<open>The code point of one encoded rune (a segment cut off by \<open>rune_len\<close>).\<close>

definition rune_of :: "string \<Rightarrow> nat" where
  "rune_of seg =
     (case seg of
        [a] \<Rightarrow> (if byte a < 0x80 then byte a else 0xFFFD)
      | [a, b] \<Rightarrow> (byte a - 0xC0) * 64 + (byte b - 0x80)
      | [a, b, c] \<Rightarrow> (byte a - 0xE0) * 4096 + (byte b - 0x80) * 64 + (byte c - 0x80)
      | [a, b, c, d] \<Rightarrow>
          (byte a - 0xF0) * 262144 + (byte b - 0x80) * 4096 + (byte c - 0x80) * 64 + (byte d - 0x80)
      | _ \<Rightarrow> 0xFFFD)"

text \<open>The string cut into the encodings of its runes, front to back.\<close>

fun segments :: "string \<Rightarrow> string list" where
  "segments [] = []"
| "segments (c # cs) =
     take (rune_len (c # cs)) (c # cs) # segments (drop (rune_len (c # cs) - 1) cs)"

definition runes :: "string \<Rightarrow> nat list" where
  "runes s = map rune_of (segments s)"

text \<open>\<^verbatim>\<open>utf8.AppendRune\<close>: the encoding of a code point.\<close>

definition encode_rune :: "nat \<Rightarrow> string" where
  "encode_rune r =
     (if r < 0x80 then [char_of r]
      else if r < 0x800 then [char_of (0xC0 + r div 64), char_of (0x80 + r mod 64)]
      else if r > 0x10FFFF \<or> (0xD800 \<le> r \<and> r \<le> 0xDFFF) then [CHR 0xEF, CHR 0xBF, CHR 0xBD]
      else if r < 0x10000 then
        [char_of (0xE0 + r div 4096), char_of (0x80 + r div 64 mod 64), char_of (0x80 + r mod 64)]
      else
        [char_of (0xF0 + r div 262144), char_of (0x80 + r div 4096 mod 64),
         char_of (0x80 + r div 64 mod 64), char_of (0x80 + r mod 64)])"

subsection \<open>Package strings\<close>

text \<open>
  \<^verbatim>\<open>strings.Map(mapping, s)\<close> for a mapping that returns no negative value: every rune of
  \<open>s\<close> is replaced by the encoding of its image.
\<close>

definition strings_Map :: "(nat \<Rightarrow> nat) \<Rightarrow> string \<Rightarrow> string" where
  "strings_Map mapping s = concat (map (\<lambda>r. encode_rune (mapping r)) (runes s))"

definition TrimSuffix :: "string \<Rightarrow> string \<Rightarrow> string" where
  "TrimSuffix s suffix =
     (if length suffix \<le> length s \<and> drop (length s - length suffix) s = suffix
      then take (length s - length suffix) s else s)"

text \<open>
  \<^verbatim>\<open>unicode.IsSpace\<close>, and \<^verbatim>\<open>strings.TrimSpace\<close>, which removes the runes that are white space
  from both ends.
\<close>

definition IsSpace :: "nat \<Rightarrow> bool" where
  "IsSpace r =
     ((0x09 \<le> r \<and> r \<le> 0x0D) \<or> r = 0x20 \<or> r = 0x85 \<or> r = 0xA0 \<or> r = 0x1680
      \<or> (0x2000 \<le> r \<and> r \<le> 0x200A) \<or> r = 0x2028 \<or> r = 0x2029 \<or> r = 0x202F
      \<or> r = 0x205F \<or> r = 0x3000)"

definition space_seg :: "string \<Rightarrow> bool" where
  "space_seg seg = IsSpace (rune_of seg)"

definition TrimSpace :: "string \<Rightarrow> string" where
  "TrimSpace s = concat (rev (dropWhile space_seg (rev (dropWhile space_seg (segments s)))))"

text \<open>\<^verbatim>\<open>strings.Join\<close> with the separator \<^verbatim>\<open>/\<close>, and its inverse on the separator.\<close>

fun join_slash :: "string list \<Rightarrow> string" where
  "join_slash [] = []"
| "join_slash [e] = e"
| "join_slash (e # es) = e @ CHR ''/'' # join_slash es"

fun split_slash :: "string \<Rightarrow> string list" where
  "split_slash [] = [[]]"
| "split_slash (c # cs) =
     (if c = CHR ''/'' then [] # split_slash cs
      else (case split_slash cs of [] \<Rightarrow> [[c]] | e # es \<Rightarrow> (c # e) # es))"

subsection \<open>Package path/filepath\<close>

definition Base :: "string \<Rightarrow> string" where
  "Base path =
     (if path = [] then ''.''
      else
        (let stripped = rev (dropWhile (\<lambda>c. c = CHR ''/'') (rev path));
             elem = rev (takeWhile (\<lambda>c. c \<noteq> CHR ''/'') (rev stripped))
         in if elem = [] then ''/'' else elem))"

text \<open>
  \<^verbatim>\<open>Ext\<close> scans the path from its end and stops at the first separator or dot; \<open>acc\<close>
  collects the bytes passed over.
\<close>

fun ext_scan :: "string \<Rightarrow> string \<Rightarrow> string" where
  "ext_scan [] acc = []"
| "ext_scan (c # cs) acc =
     (if c = CHR ''/'' then []
      else if c = CHR ''.'' then c # acc
      else ext_scan cs (c # acc))"

definition Ext :: "string \<Rightarrow> string" where
  "Ext path = ext_scan (rev path) []"

text \<open>
  \<^verbatim>\<open>Clean\<close> on the elements of the path: empty elements and \<^verbatim>\<open>.\<close> are dropped, \<^verbatim>\<open>..\<close>
  removes the element before it (or is kept at the front of a path that is not rooted,
  or is dropped at the root).
\<close>

fun clean_elems :: "bool \<Rightarrow> string list \<Rightarrow> string list \<Rightarrow> string list" where
  "clean_elems rooted out [] = out"
| "clean_elems rooted out (e # es) =
     (if e = [] \<or> e = ''.'' then clean_elems rooted out es
      else if e = ''..'' then
        (if out \<noteq> [] \<and> last out \<noteq> ''..'' then clean_elems rooted (butlast out) es
         else if \<not> rooted then clean_elems rooted (out @ [''..'']) es
         else clean_elems rooted out es)
      else clean_elems rooted (out @ [e]) es)"

definition Clean :: "string \<Rightarrow> string" where
  "Clean path =
     (if path = [] then ''.''
      else
        (let rooted = (hd path = CHR ''/'');
             out = clean_elems rooted [] (split_slash path)
         in if rooted then CHR ''/'' # join_slash out
            else if out = [] then ''.'' else join_slash out))"

definition Join :: "string list \<Rightarrow> string" where
  "Join elem =
     (case dropWhile (\<lambda>e. e = []) elem of
        [] \<Rightarrow> []
      | es \<Rightarrow> Clean (join_slash es))"

definition Dir :: "string \<Rightarrow> string" where
  "Dir path = Clean (rev (dropWhile (\<lambda>c. c \<noteq> CHR ''/'') (rev path)))"

subsection \<open>Decimal numbers and the date\<close>

definition digit :: "nat \<Rightarrow> char" where
  "digit d = char_of (48 + d)"

fun itoa :: "nat \<Rightarrow> string" where
  "itoa n = (if n < 10 then [digit n] else itoa (n div 10) @ [digit (n mod 10)])"

record date =
  year :: nat
  month :: nat
  day :: nat

definition two_digits :: "nat \<Rightarrow> string" where
  "two_digits n = [digit (n div 10 mod 10), digit (n mod 10)]"

text \<open>\<^verbatim>\<open>Format("06-01-02")\<close>: the last two digits of the year, the month and the day.\<close>

definition format_yy_mm_dd :: "date \<Rightarrow> string" where
  "format_yy_mm_dd d =
     two_digits (year d mod 100) @ ''-'' @ two_digits (month d) @ ''-'' @ two_digits (day d)"

section \<open>File Enumerator\<close>

text \<open>
  The part of the file system below one path, as \<^verbatim>\<open>filepath.Walk\<close> sees it through
  \<^verbatim>\<open>os.Lstat\<close> and the reading of directory names: an entry that is not a directory (a
  regular file, or a symbolic link, named pipe, socket or device, none of which
  \<^verbatim>\<open>Lstat\<close> follows), a directory with its entries in the order the system lists them,
  a directory whose names cannot be read, and a path on which \<^verbatim>\<open>Lstat\<close> fails (for the
  root: a root that does not exist).
\<close>

datatype ftype = Regular | Symlink | NamedPipe | Socket | Device

datatype node =
    File ftype
  | Directory "(string \<times> node) list"
  | Unlistable err
  | Unstattable err

fun IsDir :: "node \<Rightarrow> bool" where
  "IsDir (Directory es) = True"
| "IsDir (Unlistable er) = True"
| "IsDir n = False"

text \<open>
  \<^verbatim>\<open>filepath.Rel\<close>: both paths are cleaned, their common leading elements are dropped, and
  one \<^verbatim>\<open>..\<close> is written for every element left of the base path.
\<close>

fun drop_common :: "string list \<Rightarrow> string list \<Rightarrow> string list \<times> string list" where
  "drop_common (b # bs) (t # ts) = (if b = t then drop_common bs ts else (b # bs, t # ts))"
| "drop_common bs ts = (bs, ts)"

definition elements :: "string \<Rightarrow> string list" where
  "elements path = filter (\<lambda>e. e \<noteq> []) (split_slash path)"

definition rel_error :: "string \<Rightarrow> string \<Rightarrow> err" where
  "rel_error basepath targpath =
     ''Rel: can'' @ [CHR 0x27] @ ''t make '' @ targpath @ '' relative to '' @ basepath"

definition Rel :: "string \<Rightarrow> string \<Rightarrow> err + string" where
  "Rel basepath targpath =
     (let base = Clean basepath; targ = Clean targpath in
      if targ = base then Inr ''.''
      else
        (let base = (if base = ''.'' then [] else base) in
         if (base \<noteq> [] \<and> hd base = CHR ''/'') \<noteq> (targ \<noteq> [] \<and> hd targ = CHR ''/'')
         then Inl (rel_error basepath targpath)
         else
           (case drop_common (elements base) (elements targ) of
              (bs, ts) \<Rightarrow>
                if bs \<noteq> [] \<and> hd bs = ''..''
                then Inl (rel_error basepath targpath)
                else Inr (join_slash (replicate (length bs) ''..'' @ ts)))))"

text \<open>
  \<^verbatim>\<open>filepath.Walk\<close> for a callback that never returns \<^verbatim>\<open>SkipDir\<close> or \<^verbatim>\<open>SkipAll\<close> (the one
  of \<^verbatim>\<open>findFiles\<close> returns \<^verbatim>\<open>nil\<close>, the error it was given, or the error of \<^verbatim>\<open>Rel\<close>).  The
  callback is given the path, the node standing for its \<^verbatim>\<open>FileInfo\<close>, and the error of
  \<^verbatim>\<open>Lstat\<close> or of the directory listing; the names of a directory are visited in sorted
  order.
\<close>

function walk :: "(string \<Rightarrow> node \<Rightarrow> err option \<Rightarrow> 's \<Rightarrow> err option \<times> 's) \<Rightarrow>
                    string \<Rightarrow> node \<Rightarrow> 's \<Rightarrow> err option \<times> 's"
  and walk_names :: "(string \<Rightarrow> node \<Rightarrow> err option \<Rightarrow> 's \<Rightarrow> err option \<times> 's) \<Rightarrow>
                    string \<Rightarrow> (string \<times> node) list \<Rightarrow> 's \<Rightarrow> err option \<times> 's" where
  "walk fn path (File k) st = fn path (File k) None st"
| "walk fn path (Directory es) st =
     (case fn path (Directory es) None st of
        (Some er, st') \<Rightarrow> (Some er, st')
      | (None, st') \<Rightarrow> walk_names fn path (sort_key fst es) st')"
| "walk fn path (Unlistable er) st = fn path (Unlistable er) (Some er) st"
| "walk fn path (Unstattable er) st = fn path (Unstattable er) (Some er) st"
| "walk_names fn path [] st = (None, st)"
| "walk_names fn path ((name, n) # es) st =
     (case walk fn (Join [path, name]) n st of
        (Some er, st') \<Rightarrow> (Some er, st')
      | (None, st') \<Rightarrow> walk_names fn path es st')"
  by pat_completeness auto

text \<open>The walk ends: every call descends into the tree, and sorting keeps its size.\<close>

fun weight :: "node \<Rightarrow> nat" and weights :: "(string \<times> node) list \<Rightarrow> nat" where
  "weight (Directory es) = Suc (weights es)"
| "weight n = 1"
| "weights [] = 0"
| "weights (e # es) = weight (snd e) + weights es"

lemma weight_pos: "0 < weight n"
  by (cases n) auto

lemma weights_sum: "weights es = sum_list (map (weight \<circ> snd) es)"
  by (induction es) auto

lemma weights_sort: "weights (sort_key f es) = weights es"
proof -
  have "mset (map (weight \<circ> snd) (sort_key f es)) = mset (map (weight \<circ> snd) es)"
    by simp
  then have "sum_list (map (weight \<circ> snd) (sort_key f es)) = sum_list (map (weight \<circ> snd) es)"
    by (metis sum_mset_sum_list)
  then show ?thesis by (simp add: weights_sum)
qed

termination walk
  apply (relation "measure (\<lambda>x. case x of Inl (fn, path, n, st) \<Rightarrow> 2 * weight n
                                    | Inr (fn, path, es, st) \<Rightarrow> Suc (2 * weights es))")
  apply (auto simp: weights_sort weight_pos)
  done

text \<open>\<^verbatim>\<open>findFiles\<close>: the callback appends the path of every entry that is not a directory.\<close>

definition findFiles_fn :: "string \<Rightarrow> string \<Rightarrow> node \<Rightarrow> err option \<Rightarrow> string list \<Rightarrow> err option \<times> string list" where
  "findFiles_fn dir path info er files =
     (case er of
        Some e \<Rightarrow> (Some e, files)
      | None \<Rightarrow>
          if \<not> IsDir info then
            (case Rel dir path of
               Inl e \<Rightarrow> (Some e, files)
             | Inr relPath \<Rightarrow> (None, files @ [relPath]))
          else (None, files))"

definition findFiles :: "node \<Rightarrow> string \<Rightarrow> string list \<times> err option" where
  "findFiles fs dir = (case walk (findFiles_fn dir) dir fs [] of (er, files) \<Rightarrow> (files, er))"

section \<open>Interactive Selector Bridge\<close>

text \<open>
  One run of the \<^verbatim>\<open>fzf\<close> subprocess as the bridge observes it: the results of creating
  the two pipes and of \<^verbatim>\<open>cmd.Start()\<close> (which fails when the binary is missing), the bytes
  the process writes to its standard output, and how it ends.
\<close>

datatype wait_status = Exited nat | Signaled string | WaitFailed err

record fzf_proc =
  stdin_pipe :: "err option"
  stdout_pipe :: "err option"
  start :: "err option"
  written :: string
  status :: wait_status

text \<open>
  The error of \<^verbatim>\<open>cmd.Wait()\<close>: \<^verbatim>\<open>nil\<close> for exit status 0, an \<^verbatim>\<open>*exec.ExitError\<close> (with its exit
  code, \<open>-1\<close> for a process ended by a signal, and its message) for any other end of the
  process, and another error when waiting itself fails.
\<close>

datatype wait_error = ExitError int string | OtherError string

fun cmd_Wait :: "wait_status \<Rightarrow> wait_error option" where
  "cmd_Wait (Exited n) =
     (if n = 0 then None else Some (ExitError (int n) (''exit status '' @ itoa n)))"
| "cmd_Wait (Signaled s) = Some (ExitError (- 1) (''signal: '' @ s))"
| "cmd_Wait (WaitFailed er) = Some (OtherError er)"

text \<open>
  The first \<^verbatim>\<open>Scan()\<close> of a \<^verbatim>\<open>bufio.Scanner\<close> that splits lines: the bytes before the first
  newline, without a trailing carriage return.  There is no token when the stream is
  empty, nor when the line does not fit the scanner's buffer.
\<close>

definition MaxScanTokenSize :: nat where
  "MaxScanTokenSize = 64 * 1024"

definition dropCR :: "string \<Rightarrow> string" where
  "dropCR data = (if data \<noteq> [] \<and> last data = CHR 0x0D then butlast data else data)"

definition scan_line :: "string \<Rightarrow> string option" where
  "scan_line out =
     (let line = takeWhile (\<lambda>c. c \<noteq> CHR 0x0A) out in
      if out = [] \<or> MaxScanTokenSize \<le> length line then None else Some (dropCR line))"

definition selectFileWithFzf ::
    "(string list \<Rightarrow> fzf_proc) \<Rightarrow> proc \<Rightarrow> string list \<Rightarrow> (string \<times> err option) \<times> proc" where
  "selectFileWithFzf fzf p files =
     (let f = fzf files in
      case stdin_pipe f of
        Some er \<Rightarrow> (([], Some (''failed to create stdin pipe: '' @ er)), p)
      | None \<Rightarrow>
     (case stdout_pipe f of
        Some er \<Rightarrow> (([], Some (''failed to create stdout pipe: '' @ er)), p)
      | None \<Rightarrow>
     (case start f of
        Some er \<Rightarrow>
          (([], Some (''failed to start fzf: '' @ er)), p\<lparr>trace := trace p @ [Fzf files (Some er)]\<rparr>)
      | None \<Rightarrow>
          (let p1 = p\<lparr>trace := trace p @ [Fzf files None]\<rparr>;
               selected = (case scan_line (written f) of None \<Rightarrow> [] | Some t \<Rightarrow> t)
           in case cmd_Wait (status f) of
                Some (ExitError code msg) \<Rightarrow>
                  if code = 130 then (([], Some ''file selection cancelled''), p1)
                  else (([], Some (''fzf failed: '' @ msg)), p1)
              | Some (OtherError msg) \<Rightarrow> (([], Some (''fzf failed: '' @ msg)), p1)
              | None \<Rightarrow> ((TrimSpace selected, None), p1)))))"

section \<open>Name Deriver\<close>

text \<open>The function handed to \<^verbatim>\<open>strings.Map\<close>: letters and digits stay, the rest is a dash.\<close>

definition branch_rune :: "nat \<Rightarrow> nat" where
  "branch_rune r =
     (if (byte CHR ''a'' \<le> r \<and> r \<le> byte CHR ''z'') \<or> (byte CHR ''A'' \<le> r \<and> r \<le> byte CHR ''Z'')
         \<or> (byte CHR ''0'' \<le> r \<and> r \<le> byte CHR ''9'')
      then r else byte CHR ''-'')"

text \<open>\<^verbatim>\<open>generateBranchName\<close>, with the date of \<^verbatim>\<open>time.Now()\<close> as an argument.\<close>

definition generateBranchName :: "date \<Rightarrow> string \<Rightarrow> string" where
  "generateBranchName now filename =
     (let date = format_yy_mm_dd now;
          base = TrimSuffix (Base filename) (Ext filename);
          base = strings_Map branch_rune base
      in base @ ''-'' @ date)"

section \<open>Copier\<close>

record file_env =
  open_result :: "string \<Rightarrow> err option"
  mkdir_all_result :: "string \<Rightarrow> err option"
  create_result :: "string \<Rightarrow> err option"
  io_copy_result :: "string \<Rightarrow> string \<Rightarrow> err option"

definition copyFile :: "file_env \<Rightarrow> proc \<Rightarrow> string \<Rightarrow> string \<Rightarrow> err option \<times> proc" where
  "copyFile e p src dst =
     (let r1 = open_result e src; p1 = p\<lparr>trace := trace p @ [OpenFile src r1]\<rparr> in
      case r1 of
        Some er \<Rightarrow> (Some (''failed to open source file: '' @ er), p1)
      | None \<Rightarrow>
     (let r2 = mkdir_all_result e (Dir dst); p2 = p1\<lparr>trace := trace p1 @ [MkdirAll (Dir dst) r2]\<rparr> in
      case r2 of
        Some er \<Rightarrow> (Some (''failed to create destination directory: '' @ er), p2)
      | None \<Rightarrow>
     (let r3 = create_result e dst; p3 = p2\<lparr>trace := trace p2 @ [CreateFile dst r3]\<rparr> in
      case r3 of
        Some er \<Rightarrow> (Some (''failed to create destination file: '' @ er), p3)
      | None \<Rightarrow>
     (let r4 = io_copy_result e dst src; p4 = p3\<lparr>trace := trace p3 @ [IoCopy dst src r4]\<rparr> in
      case r4 of
        Some er \<Rightarrow> (Some (''failed to copy file: '' @ er), p4)
      | None \<Rightarrow> (None, p4)))))"

section \<open>Entry Point\<close>

text \<open>
  The command line after \<^verbatim>\<open>flag.Parse()\<close>, and everything the program asks of its
  surroundings: whether \<^verbatim>\<open>os.Stat\<close> reports that a path does not exist, the working
  directory \<^verbatim>\<open>filepath.Abs\<close> resolves relative paths against, the result of
  \<^verbatim>\<open>exec.LookPath\<close>, the tree found at a path, the behaviour of the finder on a list of
  candidates, the results of the file operations and of the commands, and the date.
\<close>

record flags =
  flag_search :: string
  flag_target :: string
  flag_branch :: string

record world =
  stat_not_exist :: "string \<Rightarrow> bool"
  getwd :: "err + string"
  look_path :: "string \<Rightarrow> err option"
  tree_at :: "string \<Rightarrow> node"
  fzf :: "string list \<Rightarrow> fzf_proc"
  fs_ops :: file_env
  commands :: cmd_env
  today :: date

definition Abs :: "world \<Rightarrow> string \<Rightarrow> err + string" where
  "Abs w path =
     (if path \<noteq> [] \<and> hd path = CHR ''/'' then Inr (Clean path)
      else (case getwd w of Inl er \<Rightarrow> Inl er | Inr wd \<Rightarrow> Inr (Join [wd, path])))"

text \<open>The loop over the required commands: the first one that is not found, if any.\<close>

fun missing_command :: "world \<Rightarrow> string list \<Rightarrow> string option" where
  "missing_command w [] = None"
| "missing_command w (c # cs) =
     (case look_path w c of Some er \<Rightarrow> Some c | None \<Rightarrow> missing_command w cs)"

definition Printf :: "proc \<Rightarrow> string \<Rightarrow> proc" where
  "Printf p s = p\<lparr>stdout := stdout p @ [s]\<rparr>"

definition quote :: string where
  "quote = [CHR 0x27]"

definition nl :: string where
  "nl = [CHR 0x0A]"

text \<open>The destination of the copy: \<^verbatim>\<open>destPath\<close> of \<^verbatim>\<open>main.go\<close> and of the earlier copy.\<close>

definition destPath :: "string \<Rightarrow> string \<Rightarrow> string" where
  "destPath absTargetDir selectedFile = Join [absTargetDir, Base selectedFile]"

definition destPath_p0 :: "string \<Rightarrow> string \<Rightarrow> string" where
  "destPath_p0 absTargetDir selectedFile = Join [absTargetDir, selectedFile]"

text \<open>
  \<^verbatim>\<open>main\<close> of \<^verbatim>\<open>main.go\<close>.  The result is the exit status: \<^verbatim>\<open>os.Exit(1)\<close> on every failure,
  0 when \<^verbatim>\<open>main\<close> returns.  (The usage text goes to standard error and is not recorded.)
\<close>

definition main :: "world \<Rightarrow> flags \<Rightarrow> proc \<Rightarrow> nat go \<times> proc" where
  "main w fl p =
     (if flag_search fl = [] then
        (Return 1, Printf p (''error: search directory is required'' @ nl))
      else if stat_not_exist w (flag_search fl) then
        (Return 1, Printf p (''error: search directory '' @ quote @ flag_search fl @ quote
                              @ '' does not exist'' @ nl))
      else
     (case Abs w (flag_search fl) of
        Inl er \<Rightarrow> (Return 1, Printf p (''error getting absolute path: '' @ er @ nl))
      | Inr absSearchDir \<Rightarrow>
     (case Abs w (flag_target fl) of
        Inl er \<Rightarrow> (Return 1, Printf p (''error getting absolute path: '' @ er @ nl))
      | Inr absTargetDir \<Rightarrow>
     (case missing_command w [''fzf'', ''git'', ''gh''] of
        Some cmd \<Rightarrow>
          (Return 1, Printf p (''error: required command '' @ quote @ cmd @ quote
                                @ '' not found in path'' @ nl))
      | None \<Rightarrow>
     (case findFiles (tree_at w absSearchDir) absSearchDir of
        (found, Some er) \<Rightarrow> (Return 1, Printf p (''error finding files: '' @ er @ nl))
      | (found, None) \<Rightarrow>
          if length found = 0 then
            (Return 1, Printf p (''no files found in search directory '' @ quote @ absSearchDir
                                  @ quote @ nl))
          else
     (case selectFileWithFzf (fzf w) p found of
        ((sel, Some er), p1) \<Rightarrow> (Return 1, Printf p1 (''error selecting file: '' @ er @ nl))
      | ((selectedFile, None), p1) \<Rightarrow>
          if selectedFile = [] then (Return 1, Printf p1 (''no file selected'' @ nl))
          else
            (let finalBranchName =
                   (if flag_branch fl = [] then generateBranchName (today w) selectedFile
                    else flag_branch fl);
                 sourcePath = Join [absSearchDir, selectedFile];
                 dest = destPath absTargetDir selectedFile;
                 p2 = Printf p1 (''copying '' @ sourcePath @ '' to '' @ dest @ ''...'' @ nl)
             in case copyFile (fs_ops w) p2 sourcePath dest of
                  (Some er, p3) \<Rightarrow> (Return 1, Printf p3 (''error copying file: '' @ er @ nl))
                | (None, p3) \<Rightarrow>
                    (let p4 = Printf p3 (''performing git operations...'' @ nl) in
                     case gitOperations (commands w) finalBranchName absTargetDir p4 of
                       (Panic, p5) \<Rightarrow> (Panic, p5)
                     | (Return (Some er), p5) \<Rightarrow>
                         (Return 1, Printf p5 (''error in git operations: '' @ er @ nl))
                     | (Return None, p5) \<Rightarrow>
                         (Return 0, Printf p5 (''successfully completed all operations! ''
                                               @ [CHR 0xF0, CHR 0x9F, CHR 0x8E, CHR 0x89] @ nl))))))))))"

text \<open>\<^verbatim>\<open>main\<close> of the earlier copy.\<close>

definition main_p0 :: "world \<Rightarrow> flags \<Rightarrow> proc \<Rightarrow> nat go \<times> proc" where
  "main_p0 w fl p =
     (if flag_search fl = [] then
        (Return 1, Printf p (''Error: search directory is required'' @ nl))
      else if stat_not_exist w (flag_search fl) then
        (Return 1, Printf p (''Error: search directory '' @ quote @ flag_search fl @ quote
                              @ '' does not exist'' @ nl))
      else
     (case Abs w (flag_search fl) of
        Inl er \<Rightarrow> (Return 1, Printf p (''Error getting absolute path: '' @ er @ nl))
      | Inr absSearchDir \<Rightarrow>
     (case Abs w (flag_target fl) of
        Inl er \<Rightarrow> (Return 1, Printf p (''Error getting absolute path: '' @ er @ nl))
      | Inr absTargetDir \<Rightarrow>
     (case missing_command w [''fzf'', ''git'', ''gh''] of
        Some cmd \<Rightarrow>
          (Return 1, Printf p (''Error: required command '' @ quote @ cmd @ quote
                                @ '' not found in PATH'' @ nl))
      | None \<Rightarrow>
     (case findFiles (tree_at w absSearchDir) absSearchDir of
        (found, Some er) \<Rightarrow> (Return 1, Printf p (''Error finding files: '' @ er @ nl))
      | (found, None) \<Rightarrow>
          if length found = 0 then
            (Return 1, Printf p (''No files found in search directory '' @ quote @ absSearchDir
                                  @ quote @ nl))
          else
     (case selectFileWithFzf (fzf w) p found of
        ((sel, Some er), p1) \<Rightarrow> (Return 1, Printf p1 (''Error selecting file: '' @ er @ nl))
      | ((selectedFile, None), p1) \<Rightarrow>
          if selectedFile = [] then (Return 1, Printf p1 (''No file selected'' @ nl))
          else
            (let finalBranchName =
                   (if flag_branch fl = [] then generateBranchName (today w) selectedFile
                    else flag_branch fl);
                 sourcePath = Join [absSearchDir, selectedFile];
                 dest = destPath_p0 absTargetDir selectedFile;
                 p2 = Printf p1 (''Copying '' @ sourcePath @ '' to '' @ dest @ ''...'' @ nl)
             in case copyFile (fs_ops w) p2 sourcePath dest of
                  (Some er, p3) \<Rightarrow> (Return 1, Printf p3 (''Error copying file: '' @ er @ nl))
                | (None, p3) \<Rightarrow>
                    (let p4 = Printf p3 (''Performing git operations...'' @ nl) in
                     case gitOperations_p0 (commands w) finalBranchName absTargetDir p4 of
                       (Panic, p5) \<Rightarrow> (Panic, p5)
                     | (Return (Some er), p5) \<Rightarrow>
                         (Return 1, Printf p5 (''Error in git operations: '' @ er @ nl))
                     | (Return None, p5) \<Rightarrow>
                         (Return 0, Printf p5 (''Successfully completed all operations!'' @ nl))))))))))"

fun entry_point :: "revision \<Rightarrow> world \<Rightarrow> flags \<Rightarrow> proc \<Rightarrow> nat go \<times> proc" where
  "entry_point MainGo = main"
| "entry_point Part000 = main_p0"

section \<open>Observations and sample inputs\<close>

text \<open>
  The events a call added to the trace, and the arguments of an event that is an
  invocation of \<^verbatim>\<open>gh pr create\<close>.
\<close>

definition new_events :: "proc \<Rightarrow> proc \<Rightarrow> event list" where
  "new_events p p' = drop (length (trace p)) (trace p')"

fun create_pr_args :: "event \<Rightarrow> string list option" where
  "create_pr_args (Exec name args r) =
     (if name = ''gh'' \<and> take 2 args = [''pr'', ''create''] then Some (drop 2 args) else None)"
| "create_pr_args ev = None"

text \<open>A runner on which every command succeeds and the two draws are \<open>i\<close> and \<open>j\<close>.\<close>

definition stub_draws :: "nat \<Rightarrow> nat \<Rightarrow> cmd_env" where
  "stub_draws i j =
     \<lparr>chdir_result = (\<lambda>d. None),
      run_result = (\<lambda>tr name args. None),
      rand_intn = (\<lambda>k b. if k = 0 then i else j)\<rparr>"

text \<open>
  A finder that ends with the given status after writing the given bytes, and one whose
  binary is missing.
\<close>

definition fzf_stub :: "wait_status \<Rightarrow> string \<Rightarrow> string list \<Rightarrow> fzf_proc" where
  "fzf_stub st out cands =
     \<lparr>stdin_pipe = None, stdout_pipe = None, start = None, written = out, status = st\<rparr>"

definition fzf_missing :: "string list \<Rightarrow> fzf_proc" where
  "fzf_missing cands =
     \<lparr>stdin_pipe = None, stdout_pipe = None,
      start = Some (''exec: '' @ [CHR 0x22] @ ''fzf'' @ [CHR 0x22]
                    @ '': executable file not found in $PATH''),
      written = [], status = WaitFailed ''exec: not started''\<rparr>"

text \<open>The branch name an invocation carries, for the four steps that carry one.\<close>

fun branch_of :: "event \<Rightarrow> string option" where
  "branch_of (Exec name args r) =
     (if name = ''git'' \<and> take 2 args = [''checkout'', ''-b''] \<and> length args = 3 then Some (args ! 2)
      else if name = ''git'' \<and> take 2 args = [''commit'', ''-m''] \<and> length args = 3 then Some (drop 4 (args ! 2))
      else if name = ''git'' \<and> take 3 args = [''push'', ''--set-upstream'', ''origin''] \<and> length args = 4
        then Some (args ! 3)
      else if name = ''gh'' \<and> take 3 args = [''pr'', ''create'', ''--title''] \<and> length args = 6
        then Some (args ! 3)
      else None)"
| "branch_of ev = None"

text \<open>
  A sample world: every check passes, the finder returns \<^verbatim>\<open>notes/idea.md\<close>, every file
  operation and command succeeds, the draws are 2 and 3, and the date is 2024-03-05.
  The tree below the search root is a parameter.
\<close>

definition picks_idea :: "string list \<Rightarrow> fzf_proc" where
  "picks_idea = fzf_stub (Exited 0) (''notes/idea.md'' @ [CHR 0x0A])"

definition files_ok :: file_env where
  "files_ok = \<lparr>open_result = (\<lambda>s. None), mkdir_all_result = (\<lambda>d. None),
               create_result = (\<lambda>d. None), io_copy_result = (\<lambda>d s. None)\<rparr>"

definition world_with :: "node \<Rightarrow> world" where
  "world_with fs =
     \<lparr>stat_not_exist = (\<lambda>path. False), getwd = Inr ''/home/u'', look_path = (\<lambda>c. None),
      tree_at = (\<lambda>path. fs),
      fzf = picks_idea,
      fs_ops = files_ok, commands = stub_draws 2 3,
      today = \<lparr>year = 2024, month = 3, day = 5\<rparr>\<rparr>"

definition flags0 :: flags where
  "flags0 = \<lparr>flag_search = ''/s'', flag_target = ''/repo'', flag_branch = []\<rparr>"

definition tree0 :: node where
  "tree0 = Directory [(''todo.txt'', File Regular), (''notes'', Directory [(''idea.md'', File Regular)])]"

definition tree_locked :: node where
  "tree_locked = Directory [(''b'', Unlistable ''open /s/b: permission denied''), (''a.txt'', File Regular)]"

definition tree_dirs_only :: node where
  "tree_dirs_only = Directory [(''empty'', Directory [])]"

subsection \<open>The sanitised name as the specification words it\<close>

text \<open>
  \<open>alnum\<close> is the class \<^verbatim>\<open>[A-Za-z0-9]\<close>.  \<open>dashed s\<close> replaces every character of \<open>s\<close> outside
  that class by one dash, a character being one rune of the string: an ASCII byte, a
  well-formed multi-byte encoding, or a byte that belongs to no encoding.
\<close>

definition alnum :: "char \<Rightarrow> bool" where
  "alnum c = ((CHR ''a'' \<le> c \<and> c \<le> CHR ''z'') \<or> (CHR ''A'' \<le> c \<and> c \<le> CHR ''Z'')
              \<or> (CHR ''0'' \<le> c \<and> c \<le> CHR ''9''))"

definition dashed :: "string \<Rightarrow> string" where
  "dashed s = concat (map (\<lambda>seg. if length seg = 1 \<and> alnum (hd seg) then seg else ''-'') (segments s))"

subsection \<open>Notions used to state the claims\<close>

text \<open>
  A \<open>normal\<close> path element is a name a directory entry can have.  \<open>rooted_path es\<close> is
  the absolute path with the elements \<open>es\<close>; \<^verbatim>\<open>filepath.Abs\<close> returns paths of this form.
\<close>

definition normal :: "string \<Rightarrow> bool" where
  "normal e = (e \<noteq> [] \<and> CHR ''/'' \<notin> set e \<and> e \<noteq> ''.'' \<and> e \<noteq> ''..'')"

definition rooted_path :: "string list \<Rightarrow> string" where
  "rooted_path es = CHR ''/'' # join_slash es"

text \<open>A tree has an error when the walk cannot read one of its entries.\<close>

fun has_error :: "node \<Rightarrow> bool" where
  "has_error (File k) = False"
| "has_error (Directory es) = (\<exists>e\<in>set es. has_error (snd e))"
| "has_error (Unlistable er) = True"
| "has_error (Unstattable er) = True"

text \<open>
  The run gets as far as the enumeration: the search directory is given and exists, both
  directories resolve to the absolute paths \<open>S\<close> and \<open>T\<close>, and the three tools are found.
\<close>

definition passes_checks :: "world \<Rightarrow> flags \<Rightarrow> string \<Rightarrow> string \<Rightarrow> bool" where
  "passes_checks w fl S T =
     (flag_search fl \<noteq> [] \<and> \<not> stat_not_exist w (flag_search fl)
      \<and> Abs w (flag_search fl) = Inr S \<and> Abs w (flag_target fl) = Inr T
      \<and> missing_command w [''fzf'', ''git'', ''gh''] = None)"

text \<open>The branch name of a run in which \<open>sel\<close> was selected.\<close>

definition final_name :: "world \<Rightarrow> flags \<Rightarrow> string \<Rightarrow> string" where
  "final_name w fl sel = (if flag_branch fl = [] then generateBranchName (today w) sel else flag_branch fl)"

section \<open>What the enumeration is expected to return\<close>

text \<open>
  The claims about \<^verbatim>\<open>findFiles\<close> are stated against the tree itself.  A position under
  the root is the list of names that leads to it, and \<open>entry_at\<close> follows such a list from
  the root (the empty list is the root).  A tree is well formed when the names of every
  directory are distinct and are names an entry can have.
\<close>

fun entry_at :: "node \<Rightarrow> string list \<Rightarrow> node option" where
  "entry_at n [] = Some n"
| "entry_at (Directory es) (name # q) =
     (case map_of es name of None \<Rightarrow> None | Some c \<Rightarrow> entry_at c q)"
| "entry_at n (name # q) = None"

fun well_formed :: "node \<Rightarrow> bool" where
  "well_formed (Directory es) = (distinct (map fst es) \<and> (\<forall>e\<in>set es. normal (fst e) \<and> well_formed (snd e)))"
| "well_formed n = True"

text \<open>
  The positions of the entries that are not directories, whatever their kind, and the
  positions of the entries the walk cannot read, with the error each of them gives.
\<close>

definition files_under :: "node \<Rightarrow> string list set" where
  "files_under n = {q. \<exists>k. entry_at n q = Some (File k)}"

fun err_of :: "node \<Rightarrow> err option" where
  "err_of (Unlistable er) = Some er"
| "err_of (Unstattable er) = Some er"
| "err_of n = None"

definition errors_under :: "node \<Rightarrow> string list set" where
  "errors_under n = {q. \<exists>m er. entry_at n q = Some m \<and> err_of m = Some er}"



section \<open>Properties of the Workflow Orchestrator\<close>

lemma len_emojis: "length happyEmojis = 6" "length birdEmojis = 13"
  by (simp_all add: happyEmojis_def birdEmojis_def)

lemma getRandomEmojis_in_range:
  "intn_in_range e \<Longrightarrow>
   getRandomEmojis e = Return (happyEmojis ! rand_intn e 0 6, birdEmojis ! rand_intn e 1 13)"
  by (simp add: getRandomEmojis_def index_def len_emojis intn_in_range_def)

lemma take_invocations:
  "take 0 (invocations b m) = []"
  "take (Suc 0) (invocations b m) = [(''git'', [''checkout'', ''-b'', b])]"
  "take 2 (invocations b m) = [(''git'', [''checkout'', ''-b'', b]), (''git'', [''add'', ''.''])]"
  "take 3 (invocations b m) =
     [(''git'', [''checkout'', ''-b'', b]), (''git'', [''add'', ''.'']),
      (''git'', [''commit'', ''-m'', ''Add '' @ b])]"
  "take 4 (invocations b m) =
     [(''git'', [''checkout'', ''-b'', b]), (''git'', [''add'', ''.'']),
      (''git'', [''commit'', ''-m'', ''Add '' @ b]),
      (''git'', [''push'', ''--set-upstream'', ''origin'', b])]"
  "take 5 (invocations b m) =
     [(''git'', [''checkout'', ''-b'', b]), (''git'', [''add'', ''.'']),
      (''git'', [''commit'', ''-m'', ''Add '' @ b]),
      (''git'', [''push'', ''--set-upstream'', ''origin'', b]),
      (''gh'', [''pr'', ''create'', ''--title'', b, ''--body'', m])]"
  "take 6 (invocations b m) = invocations b m"
  by (simp_all add: invocations_def numeral_eq_Suc)

lemma nth_invocations:
  "invocations b m ! 0 = (''git'', [''checkout'', ''-b'', b])"
  "invocations b m ! Suc 0 = (''git'', [''add'', ''.''])"
  "invocations b m ! 2 = (''git'', [''commit'', ''-m'', ''Add '' @ b])"
  "invocations b m ! 3 = (''git'', [''push'', ''--set-upstream'', ''origin'', b])"
  "invocations b m ! 4 = (''gh'', [''pr'', ''create'', ''--title'', b, ''--body'', m])"
  "invocations b m ! 5 = (''gh'', [''browse''])"
  by (simp_all add: invocations_def numeral_eq_Suc)

lemma runCommand_eq:
  "runCommand e p name args =
     (run_result e (trace p) name args,
      p\<lparr>trace := trace p @ [Exec name args (run_result e (trace p) name args)]\<rparr>)"
  by (simp add: runCommand_def Let_def)

lemma chdir_ok:
  "chdir_result e dir = None \<Longrightarrow>
   chdir e p dir = (None, p\<lparr>cwd := dir, trace := trace p @ [Chdir dir None]\<rparr>)"
  by (simp add: chdir_def Let_def)

lemmas orch_defs = gitOperations_def gitOperations_p0_def runCommand_eq chdir_ok
  outcome_at_def history_def take_invocations nth_invocations succeeded_def

text \<open>
  Claim C1 (fail-fast).  Let the working directory change succeed and let the first
  \<open>k\<close> commands of the pipeline succeed while command number \<open>k\<close> (the \<open>k+1\<close>-th
  invocation) fails with the error \<open>er\<close>.  Then, in both revisions, the trace is
  extended by exactly the change of directory, those \<open>k\<close> successful invocations and the
  failing one, nothing is invoked afterwards, and the orchestrator returns the error
  made of the label of step \<open>k\<close> and \<open>er\<close>.
\<close>

theorem fail_fast:
  assumes cd: "chdir_result e target = None"
    and rnd: "intn_in_range e"
    and k: "k < 6"
    and ok: "\<forall>i<k. outcome_at e p target (invocations branch (pr_body r e)) i = None"
    and ko: "outcome_at e p target (invocations branch (pr_body r e)) k = Some er"
  shows "orchestrator r e branch target p =
           (Return (Some (step_label r k @ er)),
            p\<lparr>cwd := target,
              trace := history p target (invocations branch (pr_body r e)) k
                       @ [Exec (fst (invocations branch (pr_body r e) ! k))
                               (snd (invocations branch (pr_body r e) ! k)) (Some er)]\<rparr>)"
proof -
  let ?cs = "invocations branch (pr_body r e)"
  note em = getRandomEmojis_in_range [OF rnd]
  from k consider "k = 0" | "k = 1" | "k = 2" | "k = 3" | "k = 4" | "k = 5" by linarith
  then show ?thesis
  proof cases
    case 1
    with ko cd show ?thesis
      by (cases r) (simp_all add: orch_defs)
  next
    case 2
    from ok 2 have "outcome_at e p target ?cs 0 = None" by simp
    with 2 ko cd show ?thesis
      by (cases r) (simp_all add: orch_defs)
  next
    case 3
    from ok 3 have "outcome_at e p target ?cs 0 = None" "outcome_at e p target ?cs 1 = None" by simp_all
    with 3 ko cd show ?thesis
      by (cases r) (simp_all add: orch_defs)
  next
    case 4
    from ok 4 have "outcome_at e p target ?cs 0 = None" "outcome_at e p target ?cs 1 = None"
      "outcome_at e p target ?cs 2 = None" by simp_all
    with 4 ko cd show ?thesis
      by (cases r) (simp_all add: orch_defs)
  next
    case 5
    from ok 5 have "outcome_at e p target ?cs 0 = None" "outcome_at e p target ?cs 1 = None"
      "outcome_at e p target ?cs 2 = None" "outcome_at e p target ?cs 3 = None" by simp_all
    with 5 ko cd em show ?thesis
      by (cases r) (simp_all add: orch_defs)
  next
    case 6
    from ok 6 have "outcome_at e p target ?cs 0 = None" "outcome_at e p target ?cs 1 = None"
      "outcome_at e p target ?cs 2 = None" "outcome_at e p target ?cs 3 = None"
      "outcome_at e p target ?cs 4 = None" by simp_all
    with 6 ko cd em show ?thesis
      by (cases r) (simp_all add: orch_defs)
  qed
qed

text \<open>
  The stub runner that fails on the third invocation: two successful invocations
  precede the failing commit and none follows, in both revisions.
\<close>

theorem fail_fast_witness:
  "orchestrator MainGo (stub_runner 3) ''idea-24-03-05'' ''/repo'' proc0 =
     (Return (Some ''failed to commit changes: exit status 1''),
      \<lparr>cwd = ''/repo'',
       trace =
         [Chdir ''/repo'' None,
          Exec ''git'' [''checkout'', ''-b'', ''idea-24-03-05''] None,
          Exec ''git'' [''add'', ''.''] None,
          Exec ''git'' [''commit'', ''-m'', ''Add idea-24-03-05''] (Some ''exit status 1'')],
       stdout = []\<rparr>)
   \<and> orchestrator Part000 (stub_runner 3) ''idea-24-03-05'' ''/repo'' proc0 =
       orchestrator MainGo (stub_runner 3) ''idea-24-03-05'' ''/repo'' proc0"
proof -
  have cd: "chdir_result (stub_runner 3) ''/repo'' = None"
    by (simp add: stub_runner_def)
  have rnd: "intn_in_range (stub_runner 3)"
    by (simp add: stub_runner_def intn_in_range_def)
  have ok: "\<forall>i<2. outcome_at (stub_runner 3) proc0 ''/repo''
              (invocations ''idea-24-03-05'' (pr_body r (stub_runner 3))) i = None" for r
    by (simp add: outcome_at_def history_def stub_runner_def proc0_def succeeded_def
        less_Suc_eq numeral_2_eq_2 take_invocations)
  have ko: "outcome_at (stub_runner 3) proc0 ''/repo''
              (invocations ''idea-24-03-05'' (pr_body r (stub_runner 3))) 2 = Some ''exit status 1''" for r
    by (simp add: outcome_at_def history_def stub_runner_def proc0_def succeeded_def take_invocations)
  show ?thesis
    using fail_fast [OF cd rnd _ ok ko, of MainGo] fail_fast [OF cd rnd _ ok ko, of Part000]
    by (simp add: history_def take_invocations nth_invocations succeeded_def proc0_def)
qed



lemma create_pr_invocation:
  assumes "orchestrator r e branch target p = (res, p')"
  shows "\<forall>ev\<in>set (new_events p p'). \<forall>args. create_pr_args ev = Some args \<longrightarrow>
           args = [''--title'', branch, ''--body'', pr_body r e]
           \<and> (r = MainGo \<longrightarrow> rand_intn e 0 6 < 6 \<and> rand_intn e 1 13 < 13)"
proof (cases r)
  case MainGo
  with assms show ?thesis
    by (auto simp add: gitOperations_def runCommand_eq chdir_def Let_def getRandomEmojis_def
        index_def len_emojis new_events_def
        split: option.splits go.splits prod.splits if_splits)
next
  case Part000
  with assms show ?thesis
    by (auto simp add: gitOperations_p0_def runCommand_eq chdir_def Let_def new_events_def
        split: option.splits go.splits prod.splits if_splits)
qed

lemma distinct_happy: "distinct happyEmojis"
  by (simp add: happyEmojis_def)

lemma p0_tokens:
  "[CHR 0xF0, CHR 0x9F, CHR 0x99, CHR 0x82, CHR 0xF0, CHR 0x9F, CHR 0xA6, CHR 0x89]
     = happyEmojis ! 3 @ birdEmojis ! 1"
  by (simp add: happyEmojis_def birdEmojis_def)

text \<open>
  Claim C7, as amended (title and body of \<^verbatim>\<open>CreatePR\<close>).  In every run of either
  revision, an invocation of \<^verbatim>\<open>gh pr create\<close> has exactly the arguments
  \<^verbatim>\<open>--title <branch> --body <body>\<close>, where the body is \<^verbatim>\<open>"New finding! "\<close> followed by one
  entry of the list of happy symbols and one entry of the list of bird symbols.  In
  \<^verbatim>\<open>main.go\<close> these are the entries at the positions returned by the two calls of
  \<^verbatim>\<open>rand.Intn\<close> of the run; in the earlier copy they are always the entries at
  positions 3 and 1 and nothing is drawn.  The six happy symbols are pairwise
  distinct, so each of them is chosen by exactly one value of the first draw.
\<close>

theorem create_pr_title_body:
  assumes "orchestrator r e branch target p = (res, p')"
  shows "(\<forall>ev\<in>set (new_events p p'). \<forall>args. create_pr_args ev = Some args \<longrightarrow>
            (\<exists>h\<in>set happyEmojis. \<exists>b\<in>set birdEmojis.
               args = [''--title'', branch, ''--body'', ''New finding! '' @ h @ b]
               \<and> (case r of
                     MainGo \<Rightarrow> h = happyEmojis ! rand_intn e 0 6 \<and> b = birdEmojis ! rand_intn e 1 13
                   | Part000 \<Rightarrow> h = happyEmojis ! 3 \<and> b = birdEmojis ! 1)))
         \<and> distinct happyEmojis"
proof -
  have "\<exists>h\<in>set happyEmojis. \<exists>b\<in>set birdEmojis.
          args = [''--title'', branch, ''--body'', ''New finding! '' @ h @ b]
          \<and> (case r of
                MainGo \<Rightarrow> h = happyEmojis ! rand_intn e 0 6 \<and> b = birdEmojis ! rand_intn e 1 13
              | Part000 \<Rightarrow> h = happyEmojis ! 3 \<and> b = birdEmojis ! 1)"
    if ev: "ev \<in> set (new_events p p')" and args: "create_pr_args ev = Some args" for ev args
  proof -
    from create_pr_invocation [OF assms] ev args
    have a: "args = [''--title'', branch, ''--body'', pr_body r e]"
      and rng: "r = MainGo \<longrightarrow> rand_intn e 0 6 < 6 \<and> rand_intn e 1 13 < 13"
      by blast+
    show ?thesis
    proof (cases r)
      case MainGo
      with rng have "happyEmojis ! rand_intn e 0 6 \<in> set happyEmojis"
        "birdEmojis ! rand_intn e 1 13 \<in> set birdEmojis"
        by (simp_all add: len_emojis)
      with a MainGo show ?thesis by auto
    next
      case Part000
      have "happyEmojis ! 3 \<in> set happyEmojis" "birdEmojis ! 1 \<in> set birdEmojis"
        by (simp_all add: len_emojis)
      with a Part000 show ?thesis by (auto simp add: p0_tokens)
    qed
  qed
  with distinct_happy show ?thesis by blast
qed

text \<open>
  A run of \<^verbatim>\<open>main.go\<close> in which the draws are 5 and 12: the sixth new event is the
  invocation of \<^verbatim>\<open>gh pr create\<close>, and its arguments are the title, the branch and the body
  made of the entries at positions 5 and 12.
\<close>

theorem create_pr_title_body_witness:
  "new_events proc0 (snd (orchestrator MainGo (stub_draws 5 12) ''idea-24-03-05'' ''/repo'' proc0)) ! 5
     \<in> set (new_events proc0 (snd (orchestrator MainGo (stub_draws 5 12) ''idea-24-03-05'' ''/repo'' proc0)))
   \<and> create_pr_args
        (new_events proc0 (snd (orchestrator MainGo (stub_draws 5 12) ''idea-24-03-05'' ''/repo'' proc0)) ! 5)
      = Some [''--title'', ''idea-24-03-05'', ''--body'',
              ''New finding! '' @ happyEmojis ! 5 @ birdEmojis ! 12]"
proof -
  let ?run = "orchestrator MainGo (stub_draws 5 12) ''idea-24-03-05'' ''/repo'' proc0"
  let ?evs = "new_events proc0 (snd ?run)"
  have evs: "?evs =
       [Chdir ''/repo'' None,
        Exec ''git'' [''checkout'', ''-b'', ''idea-24-03-05''] None,
        Exec ''git'' [''add'', ''.''] None,
        Exec ''git'' [''commit'', ''-m'', ''Add idea-24-03-05''] None,
        Exec ''git'' [''push'', ''--set-upstream'', ''origin'', ''idea-24-03-05''] None,
        Exec ''gh'' [''pr'', ''create'', ''--title'', ''idea-24-03-05'', ''--body'',
                     ''New finding! '' @ happyEmojis ! 5 @ birdEmojis ! 12] None,
        Exec ''gh'' [''browse''] None]"
    by (simp add: gitOperations_def runCommand_eq chdir_def Let_def getRandomEmojis_def index_def
        len_emojis stub_draws_def proc0_def new_events_def)
  have mem: "?evs ! 5 \<in> set ?evs"
    unfolding evs by simp
  obtain args where args: "create_pr_args (?evs ! 5) = Some args"
    unfolding evs by simp
  have run: "?run = (fst ?run, snd ?run)"
    by simp
  from create_pr_title_body [OF run] mem args
  have "\<exists>h\<in>set happyEmojis. \<exists>b\<in>set birdEmojis.
          args = [''--title'', ''idea-24-03-05'', ''--body'', ''New finding! '' @ h @ b]
          \<and> h = happyEmojis ! rand_intn (stub_draws 5 12) 0 6
          \<and> b = birdEmojis ! rand_intn (stub_draws 5 12) 1 13"
    by (auto simp del: orchestrator.simps)
  then have "args = [''--title'', ''idea-24-03-05'', ''--body'',
                     ''New finding! '' @ happyEmojis ! 5 @ birdEmojis ! 12]"
    by (auto simp add: stub_draws_def)
  with mem args show ?thesis by simp
qed

text \<open>
  Against the claim as stated: with a position drawn uniformly from the thirteen of the
  bird list, the symbol U+1F985 stands at two positions and U+1F427 at one, so the bird
  symbols are not equally likely; and the earlier copy sends the same body whatever the
  two draws are.
\<close>

theorem tokens_not_uniform:
  "count_list birdEmojis [CHR 0xF0, CHR 0x9F, CHR 0xA6, CHR 0x85] = 2
   \<and> count_list birdEmojis [CHR 0xF0, CHR 0x9F, CHR 0x90, CHR 0xA7] = 1
   \<and> gitOperations_p0 (stub_draws 0 0) ''idea-24-03-05'' ''/repo'' proc0
       = gitOperations_p0 (stub_draws 5 12) ''idea-24-03-05'' ''/repo'' proc0"
  by (simp add: birdEmojis_def gitOperations_p0_def runCommand_eq chdir_def Let_def stub_draws_def)

section \<open>Properties of the string functions\<close>

text \<open>Appending one ASCII byte adds one segment and changes none of the others.\<close>

lemma lead_lo: "lead b = Some (lo, hi, n) \<Longrightarrow> 0x80 \<le> lo"
  by (simp add: lead_def split: if_splits)

lemma conts_length: "conts n cs \<Longrightarrow> n \<le> length cs"
  by (induction n cs rule: conts.induct) auto

lemma tail_ok_length: "tail_ok lo hi n cs \<Longrightarrow> Suc n \<le> length cs"
  by (cases cs) (auto simp add: tail_ok_def dest: conts_length)

lemma rune_len_le: "rune_len s \<le> length s"
  by (cases s) (auto split: option.splits dest: tail_ok_length)

lemma rune_len_pos: "0 < rune_len (c # cs)"
  by (auto split: option.splits)

lemma conts_append_ascii: "\<not> is_cont c \<Longrightarrow> cs \<noteq> [] \<or> n = 0 \<Longrightarrow> conts n (cs @ [c]) = conts n cs"
proof (induction n cs rule: conts.induct)
  case (3 n d ds)
  then show ?case by (cases n; cases ds) auto
qed auto

lemma tail_ok_append_ascii:
  "byte c < 0x80 \<Longrightarrow> 0x80 \<le> lo \<Longrightarrow> tail_ok lo hi n (cs @ [c]) = tail_ok lo hi n cs"
proof (cases cs)
  case Nil
  assume "byte c < 0x80" "0x80 \<le> lo"
  with Nil show ?thesis by (simp add: tail_ok_def)
next
  case (Cons d ds)
  assume c: "byte c < 0x80" "0x80 \<le> lo"
  then have nc: "\<not> is_cont c" by (simp add: is_cont_def)
  show ?thesis
  proof (cases "ds = [] \<and> n \<noteq> 0")
    case True
    then obtain m where "n = Suc m" by (cases n) auto
    with True Cons nc show ?thesis by (simp add: tail_ok_def)
  next
    case False
    with Cons nc show ?thesis by (auto simp add: tail_ok_def conts_append_ascii)
  qed
qed

lemma rune_len_append_ascii:
  "byte c < 0x80 \<Longrightarrow> s \<noteq> [] \<Longrightarrow> rune_len (s @ [c]) = rune_len s"
  by (cases s) (auto simp add: tail_ok_append_ascii lead_lo split: option.splits)

lemma segments_append_ascii:
  "byte c < 0x80 \<Longrightarrow> segments (s @ [c]) = segments s @ [[c]]"
proof (induction s rule: segments.induct)
  case 1
  then show ?case by (simp add: lead_def)
next
  case (2 d ds)
  have le: "rune_len (d # ds) \<le> length (d # ds)" by (rule rune_len_le)
  have pos: "0 < rune_len (d # ds)" by (rule rune_len_pos)
  from 2 have IH: "segments (drop (rune_len (d # ds) - 1) ds @ [c]) = segments (drop (rune_len (d # ds) - 1) ds) @ [[c]]"
    by simp
  have rl: "rune_len ((d # ds) @ [c]) = rune_len (d # ds)"
    using 2(2) by (intro rune_len_append_ascii) auto
  have "segments ((d # ds) @ [c]) =
          take (rune_len (d # ds)) (d # ds @ [c]) # segments (drop (rune_len (d # ds) - 1) (ds @ [c]))"
    using rl by (simp del: rune_len.simps)
  also have "take (rune_len (d # ds)) (d # ds @ [c]) = take (rune_len (d # ds)) (d # ds)"
    using le by (cases "rune_len (d # ds)") (auto simp del: rune_len.simps)
  also have "drop (rune_len (d # ds) - 1) (ds @ [c]) = drop (rune_len (d # ds) - 1) ds @ [c]"
    using le by (simp del: rune_len.simps)
  finally show ?case using IH by (simp del: rune_len.simps)
qed

lemma space_CR: "space_seg [CHR 0x0D]"
  by (simp add: space_seg_def IsSpace_def rune_of_def)

lemma trim_right_snoc:
  "P x \<Longrightarrow> rev (dropWhile P (rev (ys @ [x]))) = rev (dropWhile P (rev ys))"
  by simp

lemma TrimSpace_CR: "TrimSpace (s @ [CHR 0x0D]) = TrimSpace s"
proof -
  let ?S = "segments s"
  have seg: "segments (s @ [CHR 0x0D]) = ?S @ [[CHR 0x0D]]"
    by (rule segments_append_ascii) simp
  show ?thesis
  proof (cases "\<forall>x\<in>set ?S. space_seg x")
    case True
    then have a: "dropWhile space_seg ?S = []"
      by (simp add: dropWhile_eq_Nil_conv)
    from True space_CR have b: "dropWhile space_seg (?S @ [[CHR 0x0D]]) = []"
      by (simp add: dropWhile_eq_Nil_conv)
    show ?thesis by (simp add: TrimSpace_def seg a b)
  next
    case False
    then have "dropWhile space_seg (?S @ [[CHR 0x0D]]) = dropWhile space_seg ?S @ [[CHR 0x0D]]"
      by (auto simp add: dropWhile_append)
    then show ?thesis using space_CR by (simp add: TrimSpace_def seg)
  qed
qed

lemma TrimSpace_dropCR: "TrimSpace (dropCR s) = TrimSpace s"
proof (cases "s \<noteq> [] \<and> last s = CHR 0x0D")
  case True
  then have "s = butlast s @ [CHR 0x0D]" by (metis append_butlast_last_id)
  then have "TrimSpace s = TrimSpace (butlast s)" by (metis TrimSpace_CR)
  with True show ?thesis by (simp add: dropCR_def)
next
  case False
  then show ?thesis by (auto simp add: dropCR_def)
qed

section \<open>Properties of the Interactive Selector Bridge\<close>

lemma scan_line_first:
  assumes "out = line @ rest" "out \<noteq> []" "CHR 0x0A \<notin> set line"
    "rest = [] \<or> hd rest = CHR 0x0A" "length line < MaxScanTokenSize"
  shows "scan_line out = Some (dropCR line)"
proof -
  have "takeWhile (\<lambda>c. c \<noteq> CHR 0x0A) (line @ rest) = line"
  proof (cases rest)
    case Nil
    with assms(3) show ?thesis by (auto simp add: takeWhile_eq_all_conv)
  next
    case (Cons r rs)
    with assms(4) have "r = CHR 0x0A" by simp
    with Cons assms(3) show ?thesis by (auto simp add: takeWhile_tail)
  qed
  with assms show ?thesis by (simp add: scan_line_def Let_def)
qed

text \<open>
  Claim C3 (terminal outcomes of the finder).  For every candidate list, once the two
  pipes exist: exit status 130 gives the error \<^verbatim>\<open>file selection cancelled\<close> and the empty
  string; exit status 0 with a first line of output (the bytes before the first newline
  or the end of the output, fewer than the scanner's limit of 64 KiB) gives that line
  with surrounding white space trimmed and no error; exit status 0 with no output gives
  the empty string and no error; any other exit status, a death by signal, a failure of
  waiting, and a finder that cannot be started (a missing binary) each give an error
  that is not the cancellation.
\<close>

theorem selector_outcomes:
  assumes "stdin_pipe (fz cands) = None" and "stdout_pipe (fz cands) = None"
  shows "(start (fz cands) = None \<and> status (fz cands) = Exited 130 \<longrightarrow>
            fst (selectFileWithFzf fz p cands) = ([], Some ''file selection cancelled''))
       \<and> (\<forall>line rest.
            start (fz cands) = None \<and> status (fz cands) = Exited 0
            \<and> written (fz cands) = line @ rest \<and> line @ rest \<noteq> []
            \<and> CHR 0x0A \<notin> set line \<and> (rest = [] \<or> hd rest = CHR 0x0A)
            \<and> length line < MaxScanTokenSize \<longrightarrow>
            fst (selectFileWithFzf fz p cands) = (TrimSpace line, None))
       \<and> (start (fz cands) = None \<and> status (fz cands) = Exited 0 \<and> written (fz cands) = [] \<longrightarrow>
            fst (selectFileWithFzf fz p cands) = ([], None))
       \<and> (\<forall>n. start (fz cands) = None \<and> status (fz cands) = Exited n \<and> n \<noteq> 0 \<and> n \<noteq> 130 \<longrightarrow>
            fst (selectFileWithFzf fz p cands) = ([], Some (''fzf failed: exit status '' @ itoa n)))
       \<and> (\<forall>s. start (fz cands) = None \<and> status (fz cands) = Signaled s \<longrightarrow>
            fst (selectFileWithFzf fz p cands) = ([], Some (''fzf failed: signal: '' @ s)))
       \<and> (\<forall>er. start (fz cands) = None \<and> status (fz cands) = WaitFailed er \<longrightarrow>
            fst (selectFileWithFzf fz p cands) = ([], Some (''fzf failed: '' @ er)))
       \<and> (\<forall>er. start (fz cands) = Some er \<longrightarrow>
            fst (selectFileWithFzf fz p cands) = ([], Some (''failed to start fzf: '' @ er)))"
proof -
  have c1: "fst (selectFileWithFzf fz p cands) = ([], Some ''file selection cancelled'')"
    if "start (fz cands) = None" "status (fz cands) = Exited 130"
    using assms that by (simp add: selectFileWithFzf_def Let_def)
  have c2: "fst (selectFileWithFzf fz p cands) = (TrimSpace line, None)"
    if "start (fz cands) = None" "status (fz cands) = Exited 0"
      "written (fz cands) = line @ rest" "line @ rest \<noteq> []" "CHR 0x0A \<notin> set line"
      "rest = [] \<or> hd rest = CHR 0x0A" "length line < MaxScanTokenSize" for line rest
  proof -
    have "scan_line (written (fz cands)) = Some (dropCR line)"
      using that by (intro scan_line_first [where rest = rest]) auto
    with assms that show ?thesis
      by (simp add: selectFileWithFzf_def Let_def TrimSpace_dropCR)
  qed
  have c3: "fst (selectFileWithFzf fz p cands) = ([], None)"
    if "start (fz cands) = None" "status (fz cands) = Exited 0" "written (fz cands) = []"
    using assms that by (simp add: selectFileWithFzf_def Let_def scan_line_def TrimSpace_def)
  have c4: "fst (selectFileWithFzf fz p cands) = ([], Some (''fzf failed: exit status '' @ itoa n))"
    if "start (fz cands) = None" "status (fz cands) = Exited n" "n \<noteq> 0" "n \<noteq> 130" for n
    using assms that by (simp add: selectFileWithFzf_def Let_def del: itoa.simps)
  have c5: "fst (selectFileWithFzf fz p cands) = ([], Some (''fzf failed: signal: '' @ s))"
    if "start (fz cands) = None" "status (fz cands) = Signaled s" for s
    using assms that by (simp add: selectFileWithFzf_def Let_def)
  have c6: "fst (selectFileWithFzf fz p cands) = ([], Some (''fzf failed: '' @ er))"
    if "start (fz cands) = None" "status (fz cands) = WaitFailed er" for er
    using assms that by (simp add: selectFileWithFzf_def Let_def)
  have c7: "fst (selectFileWithFzf fz p cands) = ([], Some (''failed to start fzf: '' @ er))"
    if "start (fz cands) = Some er" for er
    using assms that by (simp add: selectFileWithFzf_def Let_def)
  from c1 c2 c3 c4 c5 c6 c7 show ?thesis by blast
qed

lemma TrimSpace_example: "TrimSpace (''  notes/idea.md '' @ [CHR 0x0D]) = ''notes/idea.md''"
  by (simp add: TrimSpace_def lead_def space_seg_def IsSpace_def rune_of_def)

lemma itoa_2: "itoa 2 = ''2''"
  by (simp add: digit_def char_of_eq_iff)

text \<open>
  The five outcomes on sample runs: cancellation, a selected line with white space and a
  carriage return around it, no output, exit status 2, and a missing binary.
\<close>

theorem selector_outcomes_witness:
  "fst (selectFileWithFzf (fzf_stub (Exited 130) []) proc0 [''notes/idea.md'', ''todo.txt''])
     = ([], Some ''file selection cancelled'')
   \<and> fst (selectFileWithFzf (fzf_stub (Exited 0) (''  notes/idea.md '' @ [CHR 0x0D, CHR 0x0A])) proc0
            [''notes/idea.md'', ''todo.txt''])
     = (''notes/idea.md'', None)
   \<and> fst (selectFileWithFzf (fzf_stub (Exited 0) []) proc0 [''notes/idea.md'', ''todo.txt''])
     = ([], None)
   \<and> fst (selectFileWithFzf (fzf_stub (Exited 2) []) proc0 [''notes/idea.md'', ''todo.txt''])
     = ([], Some ''fzf failed: exit status 2'')
   \<and> fst (selectFileWithFzf fzf_missing proc0 [''notes/idea.md'', ''todo.txt''])
     = ([], Some (''failed to start fzf: exec: '' @ [CHR 0x22] @ ''fzf'' @ [CHR 0x22]
                   @ '': executable file not found in $PATH''))"
proof -
  let ?c = "[''notes/idea.md'', ''todo.txt'']"
  note a = selector_outcomes [of "fzf_stub (Exited 130) []" ?c proc0]
  note b = selector_outcomes [of "fzf_stub (Exited 0) (''  notes/idea.md '' @ [CHR 0x0D, CHR 0x0A])" ?c proc0,
      THEN conjunct2, THEN conjunct1, rule_format, of "''  notes/idea.md '' @ [CHR 0x0D]" "[CHR 0x0A]"]
  note c = selector_outcomes [of "fzf_stub (Exited 0) []" ?c proc0]
  note d = selector_outcomes [of "fzf_stub (Exited 2) []" ?c proc0]
  note e = selector_outcomes [of fzf_missing ?c proc0]
  have t: "TrimSpace (''  notes/idea.md '' @ [CHR 0x0D]) = ''notes/idea.md''"
    by (rule TrimSpace_example)
  from a have "fst (selectFileWithFzf (fzf_stub (Exited 130) []) proc0 ?c) = ([], Some ''file selection cancelled'')"
    by (simp add: fzf_stub_def)
  moreover from b t have "fst (selectFileWithFzf (fzf_stub (Exited 0) (''  notes/idea.md '' @ [CHR 0x0D, CHR 0x0A])) proc0 ?c)
     = (''notes/idea.md'', None)"
    by (simp add: fzf_stub_def MaxScanTokenSize_def)
  moreover from c have "fst (selectFileWithFzf (fzf_stub (Exited 0) []) proc0 ?c) = ([], None)"
    by (simp add: fzf_stub_def)
  moreover from d have "fst (selectFileWithFzf (fzf_stub (Exited 2) []) proc0 ?c) = ([], Some ''fzf failed: exit status 2'')"
    by (simp add: fzf_stub_def itoa_2 del: itoa.simps)
  moreover from e have "fst (selectFileWithFzf fzf_missing proc0 ?c)
     = ([], Some (''failed to start fzf: exec: '' @ [CHR 0x22] @ ''fzf'' @ [CHR 0x22]
                   @ '': executable file not found in $PATH''))"
    by (simp add: fzf_missing_def)
  ultimately show ?thesis by simp
qed

section \<open>Properties of the Name Deriver\<close>

lemma alnum_byte: "alnum c = ((97 \<le> byte c \<and> byte c \<le> 122) \<or> (65 \<le> byte c \<and> byte c \<le> 90) \<or> (48 \<le> byte c \<and> byte c \<le> 57))"
  by (simp add: alnum_def less_eq_char_def)

lemma branch_rune_code: "branch_rune r = (if (97 \<le> r \<and> r \<le> 122) \<or> (65 \<le> r \<and> r \<le> 90) \<or> (48 \<le> r \<and> r \<le> 57) then r else 45)"
  by (simp add: branch_rune_def)

lemma encode_dash: "encode_rune 45 = ''-''"
  by (simp add: encode_rune_def char_of_eq_iff)

lemma encode_ascii: "byte c < 0x80 \<Longrightarrow> encode_rune (byte c) = [c]"
  by (simp add: encode_rune_def)

lemma branch_rune_big: "123 \<le> r \<Longrightarrow> branch_rune r = 45"
  by (simp add: branch_rune_code)

text \<open>Every segment is a single byte or encodes a code point of at least 128.\<close>

lemma take_rune_len:
  "take (rune_len (c # cs)) (c # cs) = [c] \<or>
   (2 \<le> length (take (rune_len (c # cs)) (c # cs)) \<and> 128 \<le> rune_of (take (rune_len (c # cs)) (c # cs)))"
proof (cases "lead (byte c)")
  case None
  then show ?thesis by simp
next
  case (Some t)
  obtain lo hi n where t: "t = (lo, hi, n)" by (cases t)
  show ?thesis
  proof (cases "tail_ok lo hi n cs")
    case False
    with Some t show ?thesis by simp
  next
    case True
    then obtain d ds where cs: "cs = d # ds" and d: "lo \<le> byte d" "byte d \<le> hi" and ct: "conts n ds"
      by (cases cs) (auto simp add: tail_ok_def)
    from Some t have n: "n = 0 \<or> n = 1 \<or> n = 2"
      by (auto simp add: lead_def split: if_splits)
    from Some t have c: "0xC2 \<le> byte c" "0x80 \<le> lo" and
       e0: "byte c = 0xE0 \<longrightarrow> 0xA0 \<le> lo" and f0: "byte c = 0xF0 \<longrightarrow> 0x90 \<le> lo"
       and n1: "n = 1 \<longrightarrow> 0xE0 \<le> byte c" and n2: "n = 2 \<longrightarrow> 0xF0 \<le> byte c"
      by (auto simp add: lead_def split: if_splits)
    from n show ?thesis
    proof (elim disjE)
      assume "n = 0"
      with Some t True cs c d show ?thesis
        by (simp add: rune_of_def)
    next
      assume n: "n = 1"
      with ct obtain x xs where ds: "ds = x # xs" by (cases ds) auto
      from n n1 have "0xE0 \<le> byte c" by simp
      then have "byte c = 0xE0 \<or> 0xE1 \<le> byte c" by linarith
      then have "128 \<le> (byte c - 0xE0) * 4096 + (byte d - 0x80) * 64"
      proof
        assume "byte c = 0xE0"
        with e0 d have "0xA0 \<le> byte d" by simp
        then show ?thesis by simp
      next
        assume "0xE1 \<le> byte c"
        then have "1 \<le> byte c - 0xE0" by simp
        then have "4096 \<le> (byte c - 0xE0) * 4096" by simp
        then show ?thesis by simp
      qed
      with Some t True cs ds n show ?thesis
        by (simp add: rune_of_def)
    next
      assume n: "n = 2"
      with ct obtain x y xs where ds: "ds = x # y # xs"
        by (cases ds; cases "tl ds") (auto simp add: numeral_2_eq_2)
      from n n2 have "0xF0 \<le> byte c" by simp
      then have "byte c = 0xF0 \<or> 0xF1 \<le> byte c" by linarith
      then have "128 \<le> (byte c - 0xF0) * 262144 + (byte d - 0x80) * 4096"
      proof
        assume "byte c = 0xF0"
        with f0 d have "0x90 \<le> byte d" by simp
        then have "1 \<le> byte d - 0x80" by simp
        then have "4096 \<le> (byte d - 0x80) * 4096" by simp
        then show ?thesis by simp
      next
        assume "0xF1 \<le> byte c"
        then have "1 \<le> byte c - 0xF0" by simp
        then have "262144 \<le> (byte c - 0xF0) * 262144" by simp
        then show ?thesis by simp
      qed
      with Some t True cs ds n show ?thesis
        by (simp add: rune_of_def)
    qed
  qed
qed


lemma segment_dashed:
  "encode_rune (branch_rune (rune_of (take (rune_len (c # cs)) (c # cs)))) =
     (if length (take (rune_len (c # cs)) (c # cs)) = 1 \<and> alnum (hd (take (rune_len (c # cs)) (c # cs)))
      then take (rune_len (c # cs)) (c # cs) else ''-'')"
proof -
  let ?seg = "take (rune_len (c # cs)) (c # cs)"
  from take_rune_len [of c cs] show ?thesis
  proof
    assume one: "?seg = [c]"
    show ?thesis
    proof (cases "byte c < 0x80")
      case True
      then have "rune_of [c] = byte c" by (simp add: rune_of_def)
      with True one show ?thesis
        by (simp add: branch_rune_code alnum_byte encode_dash encode_ascii del: rune_len.simps)
    next
      case False
      then have "rune_of [c] = 0xFFFD" "\<not> alnum c"
        by (simp_all add: rune_of_def alnum_byte)
      with one show ?thesis
        by (simp add: branch_rune_code encode_dash del: rune_len.simps)
    qed
  next
    assume a: "2 \<le> length ?seg \<and> 128 \<le> rune_of ?seg"
    then have L: "length ?seg \<noteq> 1" by linarith
    from a have "123 \<le> rune_of ?seg" by linarith
    then have B: "branch_rune (rune_of ?seg) = 45" by (rule branch_rune_big)
    show ?thesis unfolding B encode_dash using L by presburger
  qed
qed

lemma Map_branch_rune: "strings_Map branch_rune s = dashed s"
proof (induction s rule: segments.induct)
  case 1
  then show ?case by (simp add: strings_Map_def dashed_def runes_def)
next
  case (2 c cs)
  then show ?case
    using segment_dashed [of c cs]
    by (simp add: strings_Map_def dashed_def runes_def del: rune_len.simps)
qed

lemma segments_ascii: "\<forall>c\<in>set s. byte c < 0x80 \<Longrightarrow> segments s = map (\<lambda>c. [c]) s"
proof (induction s)
  case Nil
  then show ?case by simp
next
  case (Cons c cs)
  then have "lead (byte c) = None" by (simp add: lead_def)
  with Cons show ?case by simp
qed

lemma dashed_ascii:
  assumes "\<forall>c\<in>set s. byte c < 0x80"
  shows "dashed s = map (\<lambda>c. if alnum c then c else CHR ''-'') s"
proof -
  have "segments s = map (\<lambda>c. [c]) s"
    by (rule segments_ascii [OF assms])
  then have "dashed s = concat (map (\<lambda>c. if alnum c then [c] else ''-'') s)"
    by (simp add: dashed_def comp_def)
  also have "\<dots> = map (\<lambda>c. if alnum c then c else CHR ''-'') s"
    by (induction s) auto
  finally show ?thesis .
qed

lemma concat_map_all: "(\<And>x. \<forall>c\<in>set (f x). P c) \<Longrightarrow> \<forall>c\<in>set (concat (map f xs)). P c"
  by auto

lemma dashed_chars: "\<forall>c\<in>set (dashed s). alnum c \<or> c = CHR ''-''"
proof -
  have seg: "\<forall>c\<in>set (if length seg = 1 \<and> alnum (hd seg) then seg else ''-''). alnum c \<or> c = CHR ''-''" for seg
    by (cases seg) auto
  show ?thesis
    unfolding dashed_def by (rule concat_map_all) (rule seg)
qed

subsection \<open>Base and Ext\<close>

lemma Base_last_element:
  assumes "name \<noteq> []" "CHR ''/'' \<notin> set name" "dir = [] \<or> last dir = CHR ''/''"
  shows "Base (dir @ name) = name"
proof -
  from assms(1,2) have nl: "last name \<noteq> CHR ''/''" by (metis last_in_set)
  from assms(1) have "rev name \<noteq> []" by simp
  then obtain x xs where rn: "rev name = x # xs" by (cases "rev name") auto
  with nl assms(1) have x: "x \<noteq> CHR ''/''" by (metis last_rev list.sel(1) rev_rev_ident hd_rev)
  have strip: "dropWhile (\<lambda>c. c = CHR ''/'') (rev (dir @ name)) = rev (dir @ name)"
    using rn x by simp
  have tw: "takeWhile (\<lambda>c. c \<noteq> CHR ''/'') (rev name @ rev dir) = rev name"
  proof (cases dir)
    case Nil
    with assms(2) show ?thesis by (auto simp add: takeWhile_eq_all_conv)
  next
    case (Cons d ds)
    then have ne: "dir \<noteq> []" by simp
    with assms(3) have "hd (rev dir) = CHR ''/''" by (simp add: hd_rev del: rev.simps)
    moreover from ne have "rev dir \<noteq> []" by simp
    ultimately obtain ys where "rev dir = CHR ''/'' # ys" by (cases "rev dir") auto
    with assms(2) show ?thesis by (auto simp add: takeWhile_tail)
  qed
  from assms(1) strip tw show ?thesis
    by (simp add: Base_def Let_def)
qed

lemma ext_scan_dot:
  "CHR ''/'' \<notin> set xs \<Longrightarrow> CHR ''.'' \<notin> set xs \<Longrightarrow>
   ext_scan (xs @ CHR ''.'' # ys) acc = CHR ''.'' # rev xs @ acc"
  by (induction xs arbitrary: acc) auto

lemma ext_scan_none:
  "CHR ''/'' \<notin> set xs \<Longrightarrow> CHR ''.'' \<notin> set xs \<Longrightarrow> ys = [] \<or> hd ys = CHR ''/'' \<Longrightarrow>
   ext_scan (xs @ ys) acc = []"
proof (induction xs arbitrary: acc)
  case Nil
  then show ?case by (cases ys) auto
next
  case (Cons x xs)
  then show ?case by auto
qed

lemma Ext_with_dot:
  "CHR ''/'' \<notin> set ext \<Longrightarrow> CHR ''.'' \<notin> set ext \<Longrightarrow> Ext (pre @ CHR ''.'' # ext) = CHR ''.'' # ext"
  using ext_scan_dot [of "rev ext" "rev pre" "[]"] by (simp add: Ext_def)

lemma Ext_without_dot:
  assumes "CHR ''/'' \<notin> set name" "CHR ''.'' \<notin> set name" "dir = [] \<or> last dir = CHR ''/''"
  shows "Ext (dir @ name) = []"
proof -
  from assms(3) have "rev dir = [] \<or> hd (rev dir) = CHR ''/''"
    by (cases "dir = []") (simp_all add: hd_rev del: rev.simps)
  with assms(1,2) ext_scan_none [of "rev name" "rev dir" "[]"] show ?thesis
    by (simp add: Ext_def)
qed

lemma TrimSuffix_append: "TrimSuffix (s @ t) t = s"
  by (simp add: TrimSuffix_def)

lemma TrimSuffix_Nil: "TrimSuffix s [] = s"
  by (simp add: TrimSuffix_def)

lemma digit_alnum: "k < 10 \<Longrightarrow> alnum (digit k)"
  by (simp add: alnum_byte digit_def)

lemma two_digits_alnum: "\<forall>c\<in>set (two_digits n). alnum c"
  by (simp add: two_digits_def digit_alnum)

lemma generateBranchName_eq:
  "generateBranchName now filename =
     dashed (TrimSuffix (Base filename) (Ext filename)) @ ''-'' @ format_yy_mm_dd now"
  by (simp add: generateBranchName_def Let_def Map_branch_rune)

lemma derived_chars: "\<forall>c\<in>set (generateBranchName now filename). alnum c \<or> c = CHR ''-''"
  using dashed_chars [of "TrimSuffix (Base filename) (Ext filename)"]
    two_digits_alnum [of "year now mod 100"] two_digits_alnum [of "month now"]
    two_digits_alnum [of "day now"]
  by (auto simp add: generateBranchName_eq format_yy_mm_dd_def)

lemma stem_with_ext:
  assumes "dir = [] \<or> last dir = CHR ''/''" "CHR ''/'' \<notin> set stem" "CHR ''/'' \<notin> set ext"
    "CHR ''.'' \<notin> set ext"
  shows "TrimSuffix (Base (dir @ stem @ CHR ''.'' # ext)) (Ext (dir @ stem @ CHR ''.'' # ext)) = stem"
proof -
  have "Base (dir @ (stem @ CHR ''.'' # ext)) = stem @ CHR ''.'' # ext"
    using assms by (intro Base_last_element) auto
  moreover have "Ext ((dir @ stem) @ CHR ''.'' # ext) = CHR ''.'' # ext"
    using assms by (intro Ext_with_dot) auto
  ultimately show ?thesis
    using TrimSuffix_append [of stem "CHR ''.'' # ext"] by simp
qed

lemma stem_without_ext:
  assumes "dir = [] \<or> last dir = CHR ''/''" "name \<noteq> []" "CHR ''/'' \<notin> set name"
    "CHR ''.'' \<notin> set name"
  shows "TrimSuffix (Base (dir @ name)) (Ext (dir @ name)) = name"
  using assms by (simp add: Base_last_element Ext_without_dot TrimSuffix_Nil)

lemma two_digits_examples:
  "two_digits 24 = ''24''" "two_digits 3 = ''03''" "two_digits 5 = ''05''"
  by (simp_all add: two_digits_def digit_def char_of_eq_iff)

lemma dashed_example: "dashed ''My File v2'' = ''My-File-v2''"
  by (simp add: dashed_ascii alnum_def)

text \<open>
  Claim C4 (the derived name).  \<^verbatim>\<open>generateBranchName\<close> is a function of the file name and
  the date alone.  For a file name whose last element is \<open>stem.ext\<close> (\<open>ext\<close> being what
  follows the last dot) the result is \<open>stem\<close> with every character outside
  \<^verbatim>\<open>[A-Za-z0-9]\<close> replaced by a dash, then a dash, then the date as two-digit year, month
  and day separated by dashes; for a last element without a dot the whole element takes
  the place of \<open>stem\<close>.  The directories before the last element play no part.  On
  ASCII text the replacement is byte by byte.  In particular the name derived from
  \<^verbatim>\<open>My File v2.txt\<close> on 2024-03-05 is \<^verbatim>\<open>My-File-v2-24-03-05\<close>.
\<close>

theorem name_deriver:
  assumes "dir = [] \<or> last dir = CHR ''/''"
  shows "(CHR ''/'' \<notin> set stem \<and> CHR ''/'' \<notin> set ext \<and> CHR ''.'' \<notin> set ext \<longrightarrow>
            generateBranchName now (dir @ stem @ ''.'' @ ext) =
              dashed stem @ ''-'' @ two_digits (year now mod 100) @ ''-''
                @ two_digits (month now) @ ''-'' @ two_digits (day now))
       \<and> (name \<noteq> [] \<and> CHR ''/'' \<notin> set name \<and> CHR ''.'' \<notin> set name \<longrightarrow>
            generateBranchName now (dir @ name) =
              dashed name @ ''-'' @ two_digits (year now mod 100) @ ''-''
                @ two_digits (month now) @ ''-'' @ two_digits (day now))
       \<and> ((\<forall>c\<in>set s. byte c < 0x80) \<longrightarrow>
            dashed s = map (\<lambda>c. if alnum c then c else CHR ''-'') s)
       \<and> generateBranchName \<lparr>year = 2024, month = 3, day = 5\<rparr> ''My File v2.txt''
            = ''My-File-v2-24-03-05''"
proof -
  have ex: "TrimSuffix (Base ''My File v2.txt'') (Ext ''My File v2.txt'') = ''My File v2''"
    using stem_with_ext [of "[]" "''My File v2''" "''txt''"] by simp
  show ?thesis
    using assms
    by (simp add: generateBranchName_eq stem_with_ext stem_without_ext format_yy_mm_dd_def
        dashed_ascii ex dashed_example two_digits_examples)
qed

text \<open>A file in a directory, a name without extension, and a replacement of ASCII bytes.\<close>

theorem name_deriver_witness:
  "generateBranchName \<lparr>year = 2024, month = 3, day = 5\<rparr> ''notes/idea.md'' = ''idea-24-03-05''
   \<and> generateBranchName \<lparr>year = 2024, month = 3, day = 5\<rparr> ''docs/READ ME'' = ''READ-ME-24-03-05''
   \<and> dashed ''a_b.c'' = ''a-b-c''"
proof -
  have d: "''notes/'' = [] \<or> last ''notes/'' = CHR ''/''" "''docs/'' = [] \<or> last ''docs/'' = CHR ''/''"
    by simp_all
  note t = two_digits_examples
  from name_deriver [OF d(1), of "''idea''" "''md''" "\<lparr>year = 2024, month = 3, day = 5\<rparr>" "''x''" "''idea''"]
  have a: "generateBranchName \<lparr>year = 2024, month = 3, day = 5\<rparr> ''notes/idea.md'' = ''idea-24-03-05''"
    by (simp add: t alnum_def)
  from name_deriver [OF d(2), of "''x''" "''y''" "\<lparr>year = 2024, month = 3, day = 5\<rparr>" "''READ ME''" "''READ ME''"]
  have b: "generateBranchName \<lparr>year = 2024, month = 3, day = 5\<rparr> ''docs/READ ME'' = ''READ-ME-24-03-05''"
    by (simp add: t alnum_def)
  from name_deriver [OF d(1), of "''x''" "''y''" "\<lparr>year = 2024, month = 3, day = 5\<rparr>" "''x''" "''a_b.c''"]
  have c: "dashed ''a_b.c'' = ''a-b-c''"
    by (simp add: alnum_def)
  from a b c show ?thesis by simp
qed

section \<open>Properties of the path functions\<close>

lemma split_no_slash: "CHR ''/'' \<notin> set e \<Longrightarrow> split_slash e = [e]"
  by (induction e) auto

lemma split_slash_append:
  "CHR ''/'' \<notin> set e \<Longrightarrow> split_slash (e @ CHR ''/'' # rest) = e # split_slash rest"
  by (induction e) auto

lemma split_join:
  "es \<noteq> [] \<Longrightarrow> \<forall>e\<in>set es. CHR ''/'' \<notin> set e \<Longrightarrow> split_slash (join_slash es) = es"
proof (induction es rule: join_slash.induct)
  case 1
  then show ?case by simp
next
  case (2 e)
  then show ?case by (simp add: split_no_slash)
next
  case (3 e v va)
  then show ?case by (simp add: split_slash_append)
qed

lemma join_slash_snoc: "es \<noteq> [] \<Longrightarrow> join_slash (es @ [e]) = join_slash es @ CHR ''/'' # e"
  by (induction es rule: join_slash.induct) auto

lemma join_slash_append:
  "es \<noteq> [] \<Longrightarrow> fs \<noteq> [] \<Longrightarrow> join_slash (es @ fs) = join_slash es @ CHR ''/'' # join_slash fs"
  by (induction es rule: join_slash.induct) (auto simp add: neq_Nil_conv)

lemma clean_elems_normal: "\<forall>e\<in>set es. normal e \<Longrightarrow> clean_elems rooted out es = out @ es"
  by (induction es arbitrary: out) (auto simp add: normal_def)

lemma Clean_rooted: "\<forall>e\<in>set es. normal e \<Longrightarrow> Clean (rooted_path es) = rooted_path es"
proof (cases es)
  case Nil
  then show ?thesis by (simp add: Clean_def rooted_path_def)
next
  case (Cons a as)
  assume n: "\<forall>e\<in>set es. normal e"
  then have "split_slash (join_slash es) = es"
    using Cons by (intro split_join) (auto simp add: normal_def)
  with n show ?thesis
    by (simp add: Clean_def rooted_path_def clean_elems_normal)
qed

lemma Clean_double_slash:
  "\<forall>e\<in>set es. normal e \<Longrightarrow> Clean (CHR ''/'' # CHR ''/'' # join_slash es) = rooted_path es"
proof (cases es)
  case Nil
  then show ?thesis by (simp add: Clean_def rooted_path_def)
next
  case (Cons a as)
  assume n: "\<forall>e\<in>set es. normal e"
  then have "split_slash (join_slash es) = es"
    using Cons by (intro split_join) (auto simp add: normal_def)
  with n show ?thesis
    by (simp add: Clean_def rooted_path_def clean_elems_normal)
qed

lemma Join_rooted:
  assumes "\<forall>e\<in>set ts. normal e" "\<forall>e\<in>set rs. normal e" "rs \<noteq> []"
  shows "Join [rooted_path ts, join_slash rs] = rooted_path (ts @ rs)"
proof -
  from assms(2,3) have ne: "join_slash rs \<noteq> []"
    by (cases rs rule: join_slash.cases) (auto simp add: normal_def)
  have "Join [rooted_path ts, join_slash rs] = Clean (rooted_path ts @ CHR ''/'' # join_slash rs)"
    by (simp add: Join_def rooted_path_def)
  also have "\<dots> = rooted_path (ts @ rs)"
  proof (cases ts)
    case Nil
    with assms(2) show ?thesis
      using Clean_double_slash [of rs] by (simp add: rooted_path_def)
  next
    case (Cons a as)
    then have "ts \<noteq> []" by simp
    then have "rooted_path ts @ CHR ''/'' # join_slash rs = rooted_path (ts @ rs)"
      using assms(3) by (simp add: rooted_path_def join_slash_append)
    with assms(1,2) show ?thesis
      using Clean_rooted [of "ts @ rs"] by auto
  qed
  finally show ?thesis .
qed

lemma Join_rooted_name:
  "\<forall>e\<in>set ts. normal e \<Longrightarrow> normal name \<Longrightarrow> Join [rooted_path ts, name] = rooted_path (ts @ [name])"
  using Join_rooted [of ts "[name]"] by simp

lemma Base_join:
  assumes "\<forall>e\<in>set ds. normal e" "normal name"
  shows "Base (join_slash (ds @ [name])) = name"
proof (cases ds)
  case Nil
  with assms(2) show ?thesis
    using Base_last_element [of name "[]"] by (simp add: normal_def)
next
  case (Cons a as)
  then have "ds \<noteq> []" by simp
  then have "join_slash (ds @ [name]) = (join_slash ds @ ''/'') @ name"
    by (simp add: join_slash_snoc)
  with assms(2) show ?thesis
    using Base_last_element [of name "join_slash ds @ ''/''"] by (simp add: normal_def)
qed

section \<open>Properties of the File Enumerator\<close>

lemmas path_eval = Join_def Clean_def Rel_def elements_def Base_def Dir_def Let_def

text \<open>An entry that cannot be read ends the walk with an error.\<close>

lemma walk_error:
  "has_error n \<Longrightarrow> fst (walk (findFiles_fn dir) path n st) \<noteq> None"
  "(\<exists>e\<in>set es. has_error (snd e)) \<Longrightarrow> fst (walk_names (findFiles_fn dir) path es st) \<noteq> None"
proof (induction "findFiles_fn dir" path n st and "findFiles_fn dir" path es st
    rule: walk_walk_names.induct)
  case (1 path k st)
  then show ?case by simp
next
  case (2 path es st)
  then show ?case
    by (auto simp add: findFiles_fn_def split: prod.splits option.splits)
next
  case (3 path er st)
  then show ?case by (simp add: findFiles_fn_def)
next
  case (4 path er st)
  then show ?case by (simp add: findFiles_fn_def)
next
  case (5 path st)
  then show ?case by simp
next
  case (6 path name n es st)
  obtain r st' where w: "walk (findFiles_fn dir) (Join [path, name]) n st = (r, st')"
    by (cases "walk (findFiles_fn dir) (Join [path, name]) n st")
  show ?case
  proof (cases r)
    case (Some e)
    with w show ?thesis by simp
  next
    case None
    with w 6(1) have "\<not> has_error n" by auto
    with 6(3) have ex: "\<exists>e\<in>set es. has_error (snd e)" by auto
    from 6(2) w None ex have "fst (walk_names (findFiles_fn dir) path es st') \<noteq> None"
      by auto
    with w None show ?thesis by simp
  qed
qed

lemma findFiles_error: "has_error fs \<Longrightarrow> \<exists>er. snd (findFiles fs dir) = Some er"
  using walk_error(1) [of fs dir dir "[]"]
  by (auto simp add: findFiles_def split: prod.splits)

lemma findFiles_tree0: "findFiles tree0 ''/s'' = ([''notes/idea.md'', ''todo.txt''], None)"
  by (simp add: findFiles_def tree0_def findFiles_fn_def path_eval)

lemma findFiles_locked:
  "findFiles tree_locked ''/s'' = ([''a.txt''], Some ''open /s/b: permission denied'')"
  by (simp add: findFiles_def tree_locked_def findFiles_fn_def path_eval)

lemma findFiles_dirs_only: "findFiles tree_dirs_only ''/s'' = ([], None)"
  by (simp add: findFiles_def tree_dirs_only_def findFiles_fn_def path_eval)

lemma findFiles_missing:
  "findFiles (Unstattable er) dir = ([], Some er)"
  by (simp add: findFiles_def findFiles_fn_def)

section \<open>Properties of the Entry Point\<close>

text \<open>What each stage adds to the trace.\<close>

lemma orchestrator_events:
  assumes "orchestrator r e b T p = (res, p')"
  shows "\<exists>evs. trace p' = trace p @ evs \<and> stdout p' = stdout p
           \<and> (\<forall>ev\<in>set evs. \<forall>x. branch_of ev = Some x \<longrightarrow> x = b)
           \<and> (\<forall>ev\<in>set evs. case ev of Chdir d x \<Rightarrow> True | Exec n a x \<Rightarrow> True | _ \<Rightarrow> False)"
proof (cases r)
  case MainGo
  with assms show ?thesis
    by (auto simp add: gitOperations_def runCommand_eq chdir_def Let_def
        split: option.splits go.splits prod.splits if_splits)
next
  case Part000
  with assms show ?thesis
    by (auto simp add: gitOperations_p0_def runCommand_eq chdir_def Let_def
        split: option.splits go.splits prod.splits if_splits)
qed

lemmas gitOperations_events = orchestrator_events [of MainGo, simplified]

lemmas gitOperations_p0_events = orchestrator_events [of Part000, simplified]

lemma copyFile_events:
  assumes "copyFile e p src dst = (res, p')"
  shows "\<exists>evs. trace p' = trace p @ evs \<and> stdout p' = stdout p
           \<and> (\<forall>ev\<in>set evs. branch_of ev = None)
           \<and> (\<forall>ev\<in>set evs. \<forall>x er. ev = CreateFile x er \<longrightarrow> x = dst)"
  using assms
  by (auto simp add: copyFile_def Let_def split: option.splits)

lemma selector_events:
  assumes "selectFileWithFzf fz p found = (res, p')"
  shows "\<exists>evs. trace p' = trace p @ evs \<and> stdout p' = stdout p
           \<and> (\<forall>ev\<in>set evs. \<exists>x. ev = Fzf found x)"
  using assms
  by (auto simp add: selectFileWithFzf_def Let_def split: option.splits wait_error.splits if_splits)

lemma trace_Printf: "trace (Printf p s) = trace p"
  by (simp add: Printf_def)

lemma entry_point_selected:
  assumes ch: "passes_checks w fl S T"
    and ff: "findFiles (tree_at w S) S = (found, None)" "found \<noteq> []"
    and sel: "selectFileWithFzf (fzf w) p found = ((sel, None), p1)" "sel \<noteq> []"
    and run: "entry_point r w fl p = (res, p')"
  shows "\<forall>ev\<in>set (new_events p p').
           (\<forall>x. branch_of ev = Some x \<longrightarrow> x = final_name w fl sel)
           \<and> (\<forall>d er. ev = CreateFile d er \<longrightarrow>
                 d = (case r of MainGo \<Rightarrow> destPath T sel | Part000 \<Rightarrow> destPath_p0 T sel))"
proof -
  from selector_events [OF sel(1)] obtain evs1 where
    e1: "trace p1 = trace p @ evs1" "\<forall>ev\<in>set evs1. \<exists>x. ev = Fzf found x"
    by blast
  show ?thesis
  proof (cases r)
    case MainGo
    let ?p2 = "Printf p1 (''copying '' @ Join [S, sel] @ '' to '' @ destPath T sel @ ''...'' @ nl)"
    obtain cr p3 where cp: "copyFile (fs_ops w) ?p2 (Join [S, sel]) (destPath T sel) = (cr, p3)"
      by (cases "copyFile (fs_ops w) ?p2 (Join [S, sel]) (destPath T sel)")
    from copyFile_events [OF cp] obtain evs2 where
      e2: "trace p3 = trace ?p2 @ evs2" "\<forall>ev\<in>set evs2. branch_of ev = None"
        "\<forall>ev\<in>set evs2. \<forall>x er. ev = CreateFile x er \<longrightarrow> x = destPath T sel"
      by blast
    show ?thesis
    proof (cases cr)
      case (Some er)
      with run MainGo ch ff sel cp have "p' = Printf p3 (''error copying file: '' @ er @ nl)"
        by (simp add: main_def passes_checks_def Let_def)
      with e1 e2 have "new_events p p' = evs1 @ evs2"
        by (simp add: new_events_def trace_Printf)
      with e1 e2 MainGo show ?thesis by fastforce
    next
      case None
      let ?p4 = "Printf p3 (''performing git operations...'' @ nl)"
      obtain gr p5 where g: "gitOperations (commands w) (final_name w fl sel) T ?p4 = (gr, p5)"
        by (cases "gitOperations (commands w) (final_name w fl sel) T ?p4")
      from gitOperations_events [OF g] obtain evs3 where
        e3: "trace p5 = trace ?p4 @ evs3" "\<forall>ev\<in>set evs3. \<forall>x. branch_of ev = Some x \<longrightarrow> x = final_name w fl sel"
          "\<forall>ev\<in>set evs3. case ev of Chdir d x \<Rightarrow> True | Exec n a x \<Rightarrow> True | _ \<Rightarrow> False"
        by blast
      from run MainGo ch ff sel cp None g have "trace p' = trace p5"
        by (auto simp add: main_def passes_checks_def Let_def final_name_def trace_Printf
            split: go.splits option.splits)
      with e1 e2 e3 have "new_events p p' = evs1 @ evs2 @ evs3"
        by (simp add: new_events_def trace_Printf)
      with e1 e2 e3 MainGo show ?thesis by fastforce
    qed
  next
    case Part000
    let ?p2 = "Printf p1 (''Copying '' @ Join [S, sel] @ '' to '' @ destPath_p0 T sel @ ''...'' @ nl)"
    obtain cr p3 where cp: "copyFile (fs_ops w) ?p2 (Join [S, sel]) (destPath_p0 T sel) = (cr, p3)"
      by (cases "copyFile (fs_ops w) ?p2 (Join [S, sel]) (destPath_p0 T sel)")
    from copyFile_events [OF cp] obtain evs2 where
      e2: "trace p3 = trace ?p2 @ evs2" "\<forall>ev\<in>set evs2. branch_of ev = None"
        "\<forall>ev\<in>set evs2. \<forall>x er. ev = CreateFile x er \<longrightarrow> x = destPath_p0 T sel"
      by blast
    show ?thesis
    proof (cases cr)
      case (Some er)
      with run Part000 ch ff sel cp have "p' = Printf p3 (''Error copying file: '' @ er @ nl)"
        by (simp add: main_p0_def passes_checks_def Let_def)
      with e1 e2 have "new_events p p' = evs1 @ evs2"
        by (simp add: new_events_def trace_Printf)
      with e1 e2 Part000 show ?thesis by fastforce
    next
      case None
      let ?p4 = "Printf p3 (''Performing git operations...'' @ nl)"
      obtain gr p5 where g: "gitOperations_p0 (commands w) (final_name w fl sel) T ?p4 = (gr, p5)"
        by (cases "gitOperations_p0 (commands w) (final_name w fl sel) T ?p4")
      from gitOperations_p0_events [OF g] obtain evs3 where
        e3: "trace p5 = trace ?p4 @ evs3" "\<forall>ev\<in>set evs3. \<forall>x. branch_of ev = Some x \<longrightarrow> x = final_name w fl sel"
          "\<forall>ev\<in>set evs3. case ev of Chdir d x \<Rightarrow> True | Exec n a x \<Rightarrow> True | _ \<Rightarrow> False"
        by blast
      from run Part000 ch ff sel cp None g have "trace p' = trace p5"
        by (auto simp add: main_p0_def passes_checks_def Let_def final_name_def trace_Printf
            split: go.splits option.splits)
      with e1 e2 e3 have "new_events p p' = evs1 @ evs2 @ evs3"
        by (simp add: new_events_def trace_Printf)
      with e1 e2 e3 Part000 show ?thesis by fastforce
    qed
  qed
qed

text \<open>The sample world, evaluated.\<close>

lemma world_with_fields:
  "stat_not_exist (world_with fs) = (\<lambda>path. False)"
  "getwd (world_with fs) = Inr ''/home/u''"
  "look_path (world_with fs) = (\<lambda>c. None)"
  "tree_at (world_with fs) = (\<lambda>path. fs)"
  "fzf (world_with fs) = picks_idea"
  "fs_ops (world_with fs) = files_ok"
  "commands (world_with fs) = stub_draws 2 3"
  "today (world_with fs) = \<lparr>year = 2024, month = 3, day = 5\<rparr>"
  by (simp_all add: world_with_def)

lemma checks0: "passes_checks (world_with fs) (flags0\<lparr>flag_branch := b\<rparr>) ''/s'' ''/repo''"
  by (simp add: passes_checks_def world_with_fields flags0_def Abs_def Clean_def)

lemma select0:
  "selectFileWithFzf picks_idea p cands
     = ((''notes/idea.md'', None), p\<lparr>trace := trace p @ [Fzf cands None]\<rparr>)"
  by (simp add: selectFileWithFzf_def picks_idea_def fzf_stub_def Let_def scan_line_def
      MaxScanTokenSize_def dropCR_def TrimSpace_def lead_def space_seg_def IsSpace_def rune_of_def)

lemma copy0:
  "copyFile files_ok p src dst =
     (None, p\<lparr>trace := trace p @ [OpenFile src None, MkdirAll (Dir dst) None, CreateFile dst None,
                                     IoCopy dst src None]\<rparr>)"
  by (simp add: copyFile_def files_ok_def Let_def)

lemma git0:
  "gitOperations (stub_draws 2 3) b T p =
     (Return None,
      p\<lparr>cwd := T,
        trace := trace p @
          [Chdir T None,
           Exec ''git'' [''checkout'', ''-b'', b] None,
           Exec ''git'' [''add'', ''.''] None,
           Exec ''git'' [''commit'', ''-m'', ''Add '' @ b] None,
           Exec ''git'' [''push'', ''--set-upstream'', ''origin'', b] None,
           Exec ''gh'' [''pr'', ''create'', ''--title'', b, ''--body'',
                        ''New finding! '' @ happyEmojis ! 2 @ birdEmojis ! 3] None,
           Exec ''gh'' [''browse''] None]\<rparr>)"
  by (simp add: gitOperations_def runCommand_eq chdir_def Let_def getRandomEmojis_def index_def
      len_emojis stub_draws_def)

lemma dest0: "destPath ''/repo'' ''notes/idea.md'' = ''/repo/idea.md''"
  "destPath_p0 ''/repo'' ''notes/idea.md'' = ''/repo/notes/idea.md''"
  "Join [''/s'', ''notes/idea.md''] = ''/s/notes/idea.md''"
  "Dir ''/repo/idea.md'' = ''/repo''" "Dir ''/repo/notes/idea.md'' = ''/repo/notes''"
  by (simp_all add: destPath_def destPath_p0_def path_eval)

lemma checks0': "passes_checks (world_with fs) flags0 ''/s'' ''/repo''"
  by (simp add: passes_checks_def world_with_fields flags0_def Abs_def Clean_def)

lemma sample_name:
  "generateBranchName (today (world_with tree0)) ''notes/idea.md'' = ''idea-24-03-05''"
  using stem_with_ext [of "''notes/''" "''idea''" "''md''"]
  by (simp add: world_with_fields generateBranchName_eq format_yy_mm_dd_def two_digits_examples
      dashed_ascii alnum_def)

lemma main0_any:
  "main (world_with tree0) (flags0\<lparr>flag_branch := b\<rparr>) proc0 =
     (Return 0,
      \<lparr>cwd = ''/repo'',
       trace =
         [Fzf [''notes/idea.md'', ''todo.txt''] None,
          OpenFile ''/s/notes/idea.md'' None, MkdirAll ''/repo'' None,
          CreateFile ''/repo/idea.md'' None, IoCopy ''/repo/idea.md'' ''/s/notes/idea.md'' None,
          Chdir ''/repo'' None,
          Exec ''git'' [''checkout'', ''-b'', if b = [] then ''idea-24-03-05'' else b] None,
          Exec ''git'' [''add'', ''.''] None,
          Exec ''git'' [''commit'', ''-m'', ''Add '' @ (if b = [] then ''idea-24-03-05'' else b)] None,
          Exec ''git'' [''push'', ''--set-upstream'', ''origin'', if b = [] then ''idea-24-03-05'' else b] None,
          Exec ''gh'' [''pr'', ''create'', ''--title'', if b = [] then ''idea-24-03-05'' else b, ''--body'',
                       ''New finding! '' @ happyEmojis ! 2 @ birdEmojis ! 3] None,
          Exec ''gh'' [''browse''] None],
       stdout =
         [''copying /s/notes/idea.md to /repo/idea.md...'' @ nl,
          ''performing git operations...'' @ nl,
          ''successfully completed all operations! '' @ [CHR 0xF0, CHR 0x9F, CHR 0x8E, CHR 0x89] @ nl]\<rparr>)"
proof -
  have n: "generateBranchName \<lparr>year = 2024, month = 3, day = 5\<rparr> ''notes/idea.md'' = ''idea-24-03-05''"
    using stem_with_ext [of "''notes/''" "''idea''" "''md''"]
    by (simp add: generateBranchName_eq format_yy_mm_dd_def two_digits_examples dashed_ascii alnum_def)
  show ?thesis
    using checks0 [of tree0 b]
    by (simp add: main_def passes_checks_def world_with_fields findFiles_tree0 select0 Let_def
      copy0 git0 dest0 Printf_def flags0_def proc0_def n)
qed

lemma run0:
  "entry_point MainGo (world_with tree0) flags0 proc0 =
     (Return 0,
      \<lparr>cwd = ''/repo'',
       trace =
         [Fzf [''notes/idea.md'', ''todo.txt''] None,
          OpenFile ''/s/notes/idea.md'' None, MkdirAll ''/repo'' None,
          CreateFile ''/repo/idea.md'' None, IoCopy ''/repo/idea.md'' ''/s/notes/idea.md'' None,
          Chdir ''/repo'' None,
          Exec ''git'' [''checkout'', ''-b'', ''idea-24-03-05''] None,
          Exec ''git'' [''add'', ''.''] None,
          Exec ''git'' [''commit'', ''-m'', ''Add idea-24-03-05''] None,
          Exec ''git'' [''push'', ''--set-upstream'', ''origin'', ''idea-24-03-05''] None,
          Exec ''gh'' [''pr'', ''create'', ''--title'', ''idea-24-03-05'', ''--body'',
                       ''New finding! '' @ happyEmojis ! 2 @ birdEmojis ! 3] None,
          Exec ''gh'' [''browse''] None],
       stdout =
         [''copying /s/notes/idea.md to /repo/idea.md...'' @ nl,
          ''performing git operations...'' @ nl,
          ''successfully completed all operations! '' @ [CHR 0xF0, CHR 0x9F, CHR 0x8E, CHR 0x89] @ nl]\<rparr>)"
  using main0_any [of "[]"] by (simp add: flags0_def)

lemma events0:
  "new_events proc0 (snd (entry_point MainGo (world_with tree0) flags0 proc0)) =
         [Fzf [''notes/idea.md'', ''todo.txt''] None,
          OpenFile ''/s/notes/idea.md'' None, MkdirAll ''/repo'' None,
          CreateFile ''/repo/idea.md'' None, IoCopy ''/repo/idea.md'' ''/s/notes/idea.md'' None,
          Chdir ''/repo'' None,
          Exec ''git'' [''checkout'', ''-b'', ''idea-24-03-05''] None,
          Exec ''git'' [''add'', ''.''] None,
          Exec ''git'' [''commit'', ''-m'', ''Add idea-24-03-05''] None,
          Exec ''git'' [''push'', ''--set-upstream'', ''origin'', ''idea-24-03-05''] None,
          Exec ''gh'' [''pr'', ''create'', ''--title'', ''idea-24-03-05'', ''--body'',
                       ''New finding! '' @ happyEmojis ! 2 @ birdEmojis ! 3] None,
          Exec ''gh'' [''browse''] None]"
  unfolding run0 by (simp add: new_events_def proc0_def)

lemma sample_selection:
  "findFiles (tree_at (world_with tree0) ''/s'') ''/s'' = ([''notes/idea.md'', ''todo.txt''], None)"
  "selectFileWithFzf (fzf (world_with tree0)) proc0 [''notes/idea.md'', ''todo.txt'']
     = ((''notes/idea.md'', None),
        proc0\<lparr>trace := trace proc0 @ [Fzf [''notes/idea.md'', ''todo.txt''] None]\<rparr>)"
  by (simp_all add: world_with_fields findFiles_tree0 select0)

text \<open>
  Claim C10 (no files).  When the checks pass and the enumeration succeeds with no file,
  the run, in either revision, prints the message that no files were found in the search
  directory and exits with status 1; nothing else changes, so the trace has no new
  event: the selector is not started and the target directory is not touched.
\<close>

theorem no_files_found:
  assumes "passes_checks w fl S T" and "findFiles (tree_at w S) S = ([], None)"
  shows "entry_point r w fl p =
           (Return 1,
            p\<lparr>stdout := stdout p @
                [(case r of MainGo \<Rightarrow> ''no files found in search directory ''
                          | Part000 \<Rightarrow> ''No files found in search directory '')
                 @ quote @ S @ quote @ nl]\<rparr>)"
  using assms
  by (cases r) (simp_all add: main_def main_p0_def passes_checks_def Printf_def)

text \<open>A search root holding only an empty directory, and an empty search root.\<close>

theorem no_files_found_witness:
  "entry_point Part000 (world_with tree_dirs_only) flags0 proc0 =
     (Return 1, proc0\<lparr>stdout := [''No files found in search directory '' @ quote @ ''/s'' @ quote @ nl]\<rparr>)
   \<and> entry_point MainGo (world_with (Directory [])) flags0 proc0 =
     (Return 1, proc0\<lparr>stdout := [''no files found in search directory '' @ quote @ ''/s'' @ quote @ nl]\<rparr>)"
proof -
  have a: "findFiles (tree_at (world_with tree_dirs_only) ''/s'') ''/s'' = ([], None)"
    by (simp add: world_with_fields findFiles_dirs_only)
  have b: "findFiles (tree_at (world_with (Directory [])) ''/s'') ''/s'' = ([], None)"
    by (simp add: world_with_fields findFiles_def findFiles_fn_def)
  from no_files_found [OF checks0' a, of Part000 proc0] no_files_found [OF checks0' b, of MainGo proc0]
  show ?thesis by (simp add: proc0_def del: entry_point.simps)
qed

text \<open>
  Claim C5, as amended (the branch name).  In a run that selects the file \<open>sel\<close>, every
  step that carries a branch name (checkout, commit message, push, title of the pull
  request) carries the same one: the name derived from \<open>sel\<close> and the date when
  \<^verbatim>\<open>--branch\<close> is empty, and otherwise the value of \<^verbatim>\<open>--branch\<close> exactly as given.  The
  derived name consists of letters, digits and dashes only.
\<close>

theorem branch_name:
  assumes "passes_checks w fl S T"
    and "findFiles (tree_at w S) S = (found, None)" and "found \<noteq> []"
    and "selectFileWithFzf (fzf w) p found = ((sel, None), p1)" and "sel \<noteq> []"
    and "entry_point r w fl p = (res, p')"
  shows "(\<forall>ev\<in>set (new_events p p'). \<forall>x. branch_of ev = Some x \<longrightarrow>
            x = (if flag_branch fl = [] then generateBranchName (today w) sel else flag_branch fl))
       \<and> (\<forall>c\<in>set (generateBranchName (today w) sel). alnum c \<or> c = CHR ''-'')"
  using entry_point_selected [OF assms] derived_chars [of "today w" sel]
  by (simp add: final_name_def)

text \<open>The sample run without \<^verbatim>\<open>--branch\<close>: checkout and push carry the derived name.\<close>

theorem branch_name_witness:
  "branch_of (new_events proc0 (snd (entry_point MainGo (world_with tree0) flags0 proc0)) ! 6)
     = Some ''idea-24-03-05''
   \<and> branch_of (new_events proc0 (snd (entry_point MainGo (world_with tree0) flags0 proc0)) ! 9)
     = Some ''idea-24-03-05''
   \<and> list_all (\<lambda>c. alnum c \<or> c = CHR ''-'') ''idea-24-03-05''"
proof -
  let ?run = "entry_point MainGo (world_with tree0) flags0 proc0"
  let ?evs = "new_events proc0 (snd ?run)"
  have run: "?run = (fst ?run, snd ?run)" by simp
  note th = branch_name [OF checks0' sample_selection(1) _ sample_selection(2) _ run]
  have m: "?evs ! 6 \<in> set ?evs" "?evs ! 9 \<in> set ?evs"
    unfolding events0 by simp_all
  obtain x where x: "branch_of (?evs ! 6) = Some x"
    unfolding events0 by simp
  obtain y where y: "branch_of (?evs ! 9) = Some y"
    unfolding events0 by simp
  from th m x y have "x = ''idea-24-03-05''" "y = ''idea-24-03-05''"
    "\<forall>c\<in>set ''idea-24-03-05''. alnum c \<or> c = CHR ''-''"
    unfolding sample_name by (auto simp add: flags0_def simp del: entry_point.simps)
  with x y show ?thesis
    by (simp add: list_all_iff del: entry_point.simps)
qed

text \<open>
  Against the claim as stated: a name given with \<^verbatim>\<open>--branch\<close> reaches \<^verbatim>\<open>git checkout -b\<close>
  unchanged, slash and space included.
\<close>

theorem explicit_branch_unchecked:
  "Exec ''git'' [''checkout'', ''-b'', ''wip/idea v2''] None
     \<in> set (trace (snd (main (world_with tree0) (flags0\<lparr>flag_branch := ''wip/idea v2''\<rparr>) proc0)))
   \<and> \<not> list_all (\<lambda>c. alnum c \<or> c = CHR ''-'') ''wip/idea v2''"
  by (simp add: main0_any alnum_def)

text \<open>
  Claim C6, as amended (the destination of the copy).  In a run that selects the file
  \<open>sel\<close>, the file created by the copy is \<^verbatim>\<open>Join(target, Base(sel))\<close> in \<^verbatim>\<open>main.go\<close> and
  \<^verbatim>\<open>Join(target, sel)\<close> in the earlier copy.  For a target \<open>/t\<^sub>1/\<dots>/t\<^sub>n\<close> and a selection
  \<open>d\<^sub>1/\<dots>/d\<^sub>m/name\<close> these are \<open>/t\<^sub>1/\<dots>/t\<^sub>n/name\<close> (the directories of the selection are
  dropped) and \<open>/t\<^sub>1/\<dots>/t\<^sub>n/d\<^sub>1/\<dots>/d\<^sub>m/name\<close> (they are kept).
\<close>

theorem destination_path:
  assumes "passes_checks w fl S T"
    and "findFiles (tree_at w S) S = (found, None)" and "found \<noteq> []"
    and "selectFileWithFzf (fzf w) p found = ((sel, None), p1)" and "sel \<noteq> []"
    and "entry_point r w fl p = (res, p')"
  shows "(\<forall>dst er. CreateFile dst er \<in> set (new_events p p') \<longrightarrow>
            dst = (case r of MainGo \<Rightarrow> Join [T, Base sel] | Part000 \<Rightarrow> Join [T, sel]))
       \<and> (\<forall>ts ds name.
            (\<forall>e\<in>set ts. normal e) \<and> T = rooted_path ts \<and> (\<forall>e\<in>set ds. normal e) \<and> normal name
            \<and> sel = join_slash (ds @ [name]) \<longrightarrow>
            Join [T, Base sel] = rooted_path (ts @ [name])
            \<and> Join [T, sel] = rooted_path (ts @ ds @ [name]))"
proof -
  have a: "\<forall>dst er. CreateFile dst er \<in> set (new_events p p') \<longrightarrow>
            dst = (case r of MainGo \<Rightarrow> Join [T, Base sel] | Part000 \<Rightarrow> Join [T, sel])"
    using entry_point_selected [OF assms]
    by (cases r) (auto simp add: destPath_def destPath_p0_def)
  have b: "Join [T, Base sel] = rooted_path (ts @ [name]) \<and> Join [T, sel] = rooted_path (ts @ ds @ [name])"
    if "\<forall>e\<in>set ts. normal e" "T = rooted_path ts" "\<forall>e\<in>set ds. normal e" "normal name"
      "sel = join_slash (ds @ [name])" for ts ds name
  proof -
    from that have "Base sel = name" by (simp add: Base_join)
    moreover from that have "Join [rooted_path ts, name] = rooted_path (ts @ [name])"
      by (simp add: Join_rooted_name)
    moreover from that have "Join [rooted_path ts, join_slash (ds @ [name])] = rooted_path (ts @ ds @ [name])"
      using Join_rooted [of ts "ds @ [name]"] by simp
    ultimately show ?thesis using that by simp
  qed
  from a b show ?thesis by blast
qed

text \<open>The sample run of \<^verbatim>\<open>main.go\<close>, and both forms of the destination.\<close>

theorem destination_path_witness:
  "new_events proc0 (snd (entry_point MainGo (world_with tree0) flags0 proc0)) ! 3
     = CreateFile ''/repo/idea.md'' None
   \<and> Join [''/repo'', Base ''notes/idea.md''] = ''/repo/idea.md''
   \<and> Join [''/repo'', ''notes/idea.md''] = ''/repo/notes/idea.md''"
proof -
  let ?run = "entry_point MainGo (world_with tree0) flags0 proc0"
  let ?evs = "new_events proc0 (snd ?run)"
  have run: "?run = (fst ?run, snd ?run)" by simp
  note th = destination_path [OF checks0' sample_selection(1) _ sample_selection(2) _ run]
  obtain dst er where ev: "?evs ! 3 = CreateFile dst er" and m: "?evs ! 3 \<in> set ?evs"
    unfolding events0 by simp
  note pa = th [THEN conjunct2, rule_format, of "[''repo'']" "[''notes'']" "''idea.md''"]
  from th ev m have "dst = Join [''/repo'', Base ''notes/idea.md'']"
    by (auto simp del: entry_point.simps)
  moreover
  have "Join [''/repo'', Base ''notes/idea.md''] = rooted_path ([''repo''] @ [''idea.md''])
        \<and> Join [''/repo'', ''notes/idea.md''] = rooted_path ([''repo''] @ [''notes''] @ [''idea.md''])"
    by (rule pa) (simp_all add: normal_def rooted_path_def)
  ultimately have "dst = ''/repo/idea.md''" "Join [''/repo'', Base ''notes/idea.md''] = ''/repo/idea.md''"
    "Join [''/repo'', ''notes/idea.md''] = ''/repo/notes/idea.md''"
    by (simp_all add: rooted_path_def)
  moreover from ev have "er = None"
    unfolding events0 by simp
  ultimately show ?thesis using ev by (simp del: entry_point.simps)
qed

text \<open>
  Against the claim as stated: \<^verbatim>\<open>main.go\<close> copies the selection \<^verbatim>\<open>notes/idea.md\<close> to
  \<^verbatim>\<open>/repo/idea.md\<close>, not to \<^verbatim>\<open>/repo/notes/idea.md\<close>.
\<close>

theorem copy_is_flattened:
  "CreateFile ''/repo/idea.md'' None
     \<in> set (new_events proc0 (snd (entry_point MainGo (world_with tree0) flags0 proc0)))
   \<and> CreateFile ''/repo/notes/idea.md'' None
     \<notin> set (new_events proc0 (snd (entry_point MainGo (world_with tree0) flags0 proc0)))"
  unfolding events0 by simp

section \<open>The walk on a tree\<close>

subsection \<open>Positions of files and of unreadable entries\<close>

lemma files_under_File: "files_under (File k) = {[]}"
proof -
  have "entry_at (File k) q = Some (File k') \<longleftrightarrow> q = [] \<and> k' = k" for q k'
    by (cases q) auto
  then show ?thesis by (auto simp add: files_under_def)
qed

lemma files_under_Nil: "files_under (Directory []) = {}"
proof -
  have "entry_at (Directory []) q \<noteq> Some (File k)" for q k
    by (cases q) auto
  then show ?thesis by (auto simp add: files_under_def)
qed

lemma files_under_Cons:
  assumes "name \<notin> fst ` set es"
  shows "files_under (Directory ((name, n) # es)) = Cons name ` files_under n \<union> files_under (Directory es)"
proof -
  have a: "entry_at (Directory ((name, n) # es)) q = Some (File k) \<longleftrightarrow>
        (\<exists>q'. q = name # q' \<and> entry_at n q' = Some (File k)) \<or> entry_at (Directory es) q = Some (File k)" for q k
  proof (cases q)
    case Nil
    then show ?thesis by simp
  next
    case (Cons x xs)
    show ?thesis
    proof (cases "x = name")
      case True
      with assms have "map_of es x = None" by (simp add: map_of_eq_None_iff)
      with Cons True show ?thesis by simp
    next
      case False
      with Cons show ?thesis by simp
    qed
  qed
  show ?thesis
    unfolding files_under_def using a by (auto simp add: image_iff)
qed

lemma files_under_head:
  "q \<in> files_under (Directory es) \<Longrightarrow> \<exists>name q'. q = name # q' \<and> name \<in> fst ` set es"
proof (cases q)
  case Nil
  assume "q \<in> files_under (Directory es)"
  with Nil show ?thesis by (simp add: files_under_def)
next
  case (Cons x xs)
  assume "q \<in> files_under (Directory es)"
  with Cons have "map_of es x \<noteq> None" by (auto simp add: files_under_def split: option.splits)
  then have "x \<in> fst ` set es" by (simp add: map_of_eq_None_iff)
  with Cons show ?thesis by simp
qed

lemma files_under_perm:
  assumes "distinct (map fst es)" "distinct (map fst es')" "set es' = set es"
  shows "files_under (Directory es') = files_under (Directory es)"
proof -
  from assms have "map_of es' = map_of es"
    by (simp add: map_of_inject_set)
  then have "(entry_at (Directory es') q = Some (File k)) = (entry_at (Directory es) q = Some (File k))" for q k
    by (cases q) auto
  then show ?thesis by (simp add: files_under_def)
qed

lemma entry_at_error: "entry_at n q = Some m \<Longrightarrow> err_of m = Some er \<Longrightarrow> has_error n"
proof (induction q arbitrary: n)
  case Nil
  then show ?case by (cases n) auto
next
  case (Cons name q)
  from Cons.prems(1) obtain es where n: "n = Directory es"
    by (cases n) auto
  with Cons.prems(1) obtain c where c: "map_of es name = Some c" "entry_at c q = Some m"
    by (auto split: option.splits)
  then have "(name, c) \<in> set es" by (simp add: map_of_SomeD)
  moreover from Cons.IH [OF c(2) Cons.prems(2)] have "has_error c" .
  ultimately show ?case using n by force
qed

lemma errors_under_none: "\<not> has_error n \<Longrightarrow> errors_under n = {}"
proof -
  assume a: "\<not> has_error n"
  have "\<not> (entry_at n q = Some m \<and> err_of m = Some er)" for q m er
    using a entry_at_error by blast
  then show ?thesis unfolding errors_under_def by blast
qed

lemma errors_under_Cons:
  assumes "name \<notin> fst ` set es"
  shows "errors_under (Directory ((name, n) # es)) = Cons name ` errors_under n \<union> errors_under (Directory es)"
proof -
  have a: "(entry_at (Directory ((name, n) # es)) q = Some m \<and> err_of m = Some er) \<longleftrightarrow>
        (\<exists>q'. q = name # q' \<and> entry_at n q' = Some m \<and> err_of m = Some er)
         \<or> (entry_at (Directory es) q = Some m \<and> err_of m = Some er)" for q m er
  proof (cases q)
    case Nil
    then show ?thesis by auto
  next
    case (Cons x xs)
    show ?thesis
    proof (cases "x = name")
      case True
      with assms have "map_of es x = None" by (simp add: map_of_eq_None_iff)
      with Cons True show ?thesis by simp
    next
      case False
      with Cons show ?thesis by simp
    qed
  qed
  show ?thesis
    unfolding errors_under_def using a by (auto simp add: image_iff)
qed

lemma errors_under_head:
  "q \<in> errors_under (Directory es) \<Longrightarrow> \<exists>name q'. q = name # q' \<and> name \<in> fst ` set es"
proof (cases q)
  case Nil
  assume "q \<in> errors_under (Directory es)"
  with Nil show ?thesis by (auto simp add: errors_under_def)
next
  case (Cons x xs)
  assume "q \<in> errors_under (Directory es)"
  with Cons have "map_of es x \<noteq> None" by (auto simp add: errors_under_def split: option.splits)
  then have "x \<in> fst ` set es" by (simp add: map_of_eq_None_iff)
  with Cons show ?thesis by simp
qed

lemma entry_at_perm:
  assumes "distinct (map fst es)" "distinct (map fst es')" "set es' = set es" "q \<noteq> []"
  shows "entry_at (Directory es') q = entry_at (Directory es) q"
proof -
  from assms(1-3) have "map_of es' = map_of es"
    by (simp add: map_of_inject_set)
  with assms(4) show ?thesis by (cases q) auto
qed

lemma errors_under_perm:
  assumes "distinct (map fst es)" "distinct (map fst es')" "set es' = set es"
  shows "errors_under (Directory es') = errors_under (Directory es)"
proof -
  have "(entry_at (Directory es') q = Some m \<and> err_of m = Some er)
          = (entry_at (Directory es) q = Some m \<and> err_of m = Some er)" for q m er
  proof (cases "q = []")
    case True
    then show ?thesis by auto
  next
    case False
    with entry_at_perm [OF assms] show ?thesis by simp
  qed
  then show ?thesis by (simp add: errors_under_def)
qed




subsection \<open>Relative paths below an absolute root\<close>

lemma elements_rooted: "\<forall>e\<in>set es. normal e \<Longrightarrow> elements (rooted_path es) = es"
proof (cases es)
  case Nil
  then show ?thesis by (simp add: elements_def rooted_path_def)
next
  case (Cons a as)
  assume n: "\<forall>e\<in>set es. normal e"
  then have "split_slash (join_slash es) = es"
    using Cons by (intro split_join) (auto simp add: normal_def)
  moreover from n have "filter (\<lambda>e. e \<noteq> []) es = es"
    by (auto simp add: normal_def filter_id_conv)
  ultimately show ?thesis by (simp add: elements_def rooted_path_def)
qed

lemma drop_common_prefix: "drop_common ds (ds @ pre) = ([], pre)"
  by (induction ds) simp_all

lemma Rel_rooted:
  assumes "\<forall>e\<in>set ds. normal e" "\<forall>e\<in>set pre. normal e" "pre \<noteq> []"
  shows "Rel (rooted_path ds) (rooted_path (ds @ pre)) = Inr (join_slash pre)"
proof -
  from assms have all: "\<forall>e\<in>set (ds @ pre). normal e" by auto
  have cb: "Clean (rooted_path ds) = rooted_path ds"
    using assms(1) by (rule Clean_rooted)
  have ct: "Clean (rooted_path (ds @ pre)) = rooted_path (ds @ pre)"
    using all by (rule Clean_rooted)
  have ne: "rooted_path (ds @ pre) \<noteq> rooted_path ds"
  proof
    assume "rooted_path (ds @ pre) = rooted_path ds"
    then have "elements (rooted_path (ds @ pre)) = elements (rooted_path ds)" by simp
    with all assms(1) have "ds @ pre = ds" by (simp only: elements_rooted)
    with assms(3) show False by simp
  qed
  have r: "rooted_path es \<noteq> ''.''" "rooted_path es \<noteq> []" "hd (rooted_path es) = CHR ''/''" for es
    by (simp_all add: rooted_path_def)
  show ?thesis
    using ne
    by (simp add: Rel_def cb ct r Let_def elements_rooted [OF assms(1)] elements_rooted [OF all]
        drop_common_prefix)
qed

lemma sorted_names:
  assumes "distinct (map fst es)"
  shows "sorted_wrt (<) (map fst (sort_key fst es))"
proof -
  have "sorted (map fst (sort_key fst es))" by (rule sorted_sort_key)
  moreover have "mset (map fst (sort_key fst es)) = mset (map fst es)" by simp
  then have "distinct (map fst (sort_key fst es))"
    using assms by (metis mset_eq_imp_distinct_iff)
  ultimately show ?thesis by (simp add: strict_sorted_iff)
qed

lemma findFiles_fn_file:
  assumes "\<forall>e\<in>set ds. normal e" "\<forall>e\<in>set pre. normal e" "pre \<noteq> []"
  shows "findFiles_fn (rooted_path ds) (rooted_path (ds @ pre)) (File k) None st
           = (None, st @ [join_slash pre])"
  using Rel_rooted [OF assms] by (simp add: findFiles_fn_def)

lemma findFiles_fn_dir:
  "findFiles_fn dir path (Directory es) None st = (None, st)"
  by (simp add: findFiles_fn_def)

lemma findFiles_fn_error:
  "findFiles_fn dir path n (Some er) st = (Some er, st)"
  by (simp add: findFiles_fn_def)

subsection \<open>A tree that can be read completely\<close>

text \<open>
  The walk of a subtree at position \<open>pre\<close> appends the paths of its files, in the lexical
  order of their positions.
\<close>

lemma walk_lists:
  assumes ds: "\<forall>e\<in>set ds. normal e"
  shows "path = rooted_path (ds @ pre) \<Longrightarrow> \<forall>e\<in>set pre. normal e \<Longrightarrow> well_formed n \<Longrightarrow> \<not> has_error n
           \<Longrightarrow> IsDir n \<or> pre \<noteq> [] \<Longrightarrow>
         \<exists>qs. walk (findFiles_fn (rooted_path ds)) path n st
                 = (None, st @ map (\<lambda>q. join_slash (pre @ q)) qs)
              \<and> sorted_wrt (<) qs \<and> set qs = files_under n"
    and "path = rooted_path (ds @ pre) \<Longrightarrow> \<forall>e\<in>set pre. normal e
           \<Longrightarrow> \<forall>e\<in>set es. normal (fst e) \<and> well_formed (snd e) \<and> \<not> has_error (snd e)
           \<Longrightarrow> sorted_wrt (<) (map fst es) \<Longrightarrow>
         \<exists>qs. walk_names (findFiles_fn (rooted_path ds)) path es st
                 = (None, st @ map (\<lambda>q. join_slash (pre @ q)) qs)
              \<and> sorted_wrt (<) qs \<and> set qs = files_under (Directory es)"
proof (induction "findFiles_fn (rooted_path ds)" path n st
         and "findFiles_fn (rooted_path ds)" path es st
       arbitrary: pre and pre rule: walk_walk_names.induct)
  case (1 path k st)
  then have "pre \<noteq> []" by simp
  with 1 ds have "walk (findFiles_fn (rooted_path ds)) path (File k) st = (None, st @ [join_slash pre])"
    by (simp add: findFiles_fn_file)
  then have "walk (findFiles_fn (rooted_path ds)) path (File k) st
               = (None, st @ map (\<lambda>q. join_slash (pre @ q)) [[]])
             \<and> sorted_wrt (<) [[]::string list] \<and> set [[]] = files_under (File k)"
    by (simp add: files_under_File)
  then show ?case by blast
next
  case (2 path es st)
  let ?es = "sort_key fst es"
  from 2(4) have d: "distinct (map fst es)" and e: "\<forall>e\<in>set es. normal (fst e) \<and> well_formed (snd e)"
    by simp_all
  from 2(5) have ne: "\<forall>e\<in>set es. \<not> has_error (snd e)" by simp
  have props: "\<forall>e\<in>set ?es. normal (fst e) \<and> well_formed (snd e) \<and> \<not> has_error (snd e)"
    using e ne by simp
  have st: "sorted_wrt (<) (map fst ?es)" using d by (rule sorted_names)
  have fn: "findFiles_fn (rooted_path ds) path (Directory es) None st = (None, st)"
    by (rule findFiles_fn_dir)
  from 2(1) [OF fn [symmetric] refl 2(2) 2(3) props st]
  obtain qs where qs: "walk_names (findFiles_fn (rooted_path ds)) path ?es st
                 = (None, st @ map (\<lambda>q. join_slash (pre @ q)) qs)"
      "sorted_wrt (<) qs" "set qs = files_under (Directory ?es)"
    by blast
  have d': "distinct (map fst ?es)" using st by (simp add: strict_sorted_iff)
  have "files_under (Directory ?es) = files_under (Directory es)"
    using d d' by (intro files_under_perm) simp_all
  with qs fn show ?case by auto
next
  case (3 path er st)
  then show ?case by simp
next
  case (4 path er st)
  then show ?case by simp
next
  case (5 path st)
  have "walk_names (findFiles_fn (rooted_path ds)) path [] st
          = (None, st @ map (\<lambda>q. join_slash (pre @ q)) [])
        \<and> sorted_wrt (<) ([]::string list list) \<and> set [] = files_under (Directory [])"
    by (simp add: files_under_Nil)
  then show ?case by blast
next
  case (6 path name n es st)
  from 6(5) have nm: "normal name" and wfn: "well_formed n" and nen: "\<not> has_error n"
    and rest: "\<forall>e\<in>set es. normal (fst e) \<and> well_formed (snd e) \<and> \<not> has_error (snd e)"
    by simp_all
  from 6(6) have lt: "\<forall>x\<in>set es. name < fst x" and srt: "sorted_wrt (<) (map fst es)"
    by simp_all
  then have fresh: "name \<notin> fst ` set es" by auto
  have pre': "\<forall>e\<in>set (pre @ [name]). normal e" using 6(4) nm by simp
  have "\<forall>e\<in>set (ds @ pre). normal e" using ds 6(4) by auto
  then have jp: "Join [path, name] = rooted_path (ds @ pre @ [name])"
    using 6(3) nm Join_rooted_name [of "ds @ pre" name] by simp
  from 6(1) [OF jp pre' wfn nen]
  obtain qs1 where q1: "walk (findFiles_fn (rooted_path ds)) (Join [path, name]) n st
                 = (None, st @ map (\<lambda>q. join_slash ((pre @ [name]) @ q)) qs1)"
      "sorted_wrt (<) qs1" "set qs1 = files_under n"
    by auto
  from 6(2) [OF q1(1) [symmetric] refl 6(3) 6(4) rest srt]
  obtain qs2 where q2: "walk_names (findFiles_fn (rooted_path ds)) path es
                          (st @ map (\<lambda>q. join_slash ((pre @ [name]) @ q)) qs1)
                 = (None, (st @ map (\<lambda>q. join_slash ((pre @ [name]) @ q)) qs1)
                           @ map (\<lambda>q. join_slash (pre @ q)) qs2)"
      "sorted_wrt (<) qs2" "set qs2 = files_under (Directory es)"
    by blast
  let ?qs = "map (Cons name) qs1 @ qs2"
  have run: "walk_names (findFiles_fn (rooted_path ds)) path ((name, n) # es) st
               = (None, st @ map (\<lambda>q. join_slash (pre @ q)) ?qs)"
    using q1(1) q2(1) by (simp add: comp_def)
  have cross: "\<forall>x\<in>set (map (Cons name) qs1). \<forall>y\<in>set qs2. x < y"
  proof (intro ballI)
    fix x y
    assume x: "x \<in> set (map (Cons name) qs1)" and y: "y \<in> set qs2"
    from y q2(3) obtain name' q' where y': "y = name' # q'" "name' \<in> fst ` set es"
      using files_under_head by blast
    with lt have "name < name'" by auto
    with x y' show "x < y" by auto
  qed
  have "sorted_wrt (<) (map (Cons name) qs1)"
    using q1(2) by (simp add: sorted_wrt_map)
  with q2(2) cross have srt': "sorted_wrt (<) ?qs"
    by (simp add: sorted_wrt_append)
  have "set ?qs = files_under (Directory ((name, n) # es))"
    using q1(3) q2(3) files_under_Cons [OF fresh, of n] by simp
  with run srt' show ?case by blast
qed


subsection \<open>A tree with an unreadable entry\<close>

text \<open>
  The walk of a subtree with an unreadable entry ends with the error of the first such
  entry, having appended the paths of the files before it and of no other.
\<close>

lemma walk_stops:
  assumes ds: "\<forall>e\<in>set ds. normal e"
  shows "path = rooted_path (ds @ pre) \<Longrightarrow> \<forall>e\<in>set pre. normal e \<Longrightarrow> well_formed n \<Longrightarrow> has_error n \<Longrightarrow>
         \<exists>qs q0 m er. walk (findFiles_fn (rooted_path ds)) path n st
                 = (Some er, st @ map (\<lambda>q. join_slash (pre @ q)) qs)
              \<and> sorted_wrt (<) qs \<and> entry_at n q0 = Some m \<and> err_of m = Some er
              \<and> (\<forall>q\<in>errors_under n. q0 \<le> q)
              \<and> set qs = {q \<in> files_under n. q < q0}"
    and "path = rooted_path (ds @ pre) \<Longrightarrow> \<forall>e\<in>set pre. normal e
           \<Longrightarrow> \<forall>e\<in>set es. normal (fst e) \<and> well_formed (snd e)
           \<Longrightarrow> sorted_wrt (<) (map fst es) \<Longrightarrow> \<exists>e\<in>set es. has_error (snd e) \<Longrightarrow>
         \<exists>qs q0 m er. walk_names (findFiles_fn (rooted_path ds)) path es st
                 = (Some er, st @ map (\<lambda>q. join_slash (pre @ q)) qs)
              \<and> sorted_wrt (<) qs \<and> entry_at (Directory es) q0 = Some m \<and> err_of m = Some er
              \<and> (\<forall>q\<in>errors_under (Directory es). q0 \<le> q)
              \<and> set qs = {q \<in> files_under (Directory es). q < q0}"
proof (induction "findFiles_fn (rooted_path ds)" path n st
         and "findFiles_fn (rooted_path ds)" path es st
       arbitrary: pre and pre rule: walk_walk_names.induct)
  case (1 path k st)
  then show ?case by simp
next
  case (2 path es st)
  let ?es = "sort_key fst es"
  from 2(4) have d: "distinct (map fst es)" and e: "\<forall>e\<in>set es. normal (fst e) \<and> well_formed (snd e)"
    by simp_all
  from 2(5) have ex: "\<exists>e\<in>set ?es. has_error (snd e)" by simp
  have props: "\<forall>e\<in>set ?es. normal (fst e) \<and> well_formed (snd e)"
    using e by simp
  have st: "sorted_wrt (<) (map fst ?es)" using d by (rule sorted_names)
  have fn: "findFiles_fn (rooted_path ds) path (Directory es) None st = (None, st)"
    by (rule findFiles_fn_dir)
  from 2(1) [OF fn [symmetric] refl 2(2) 2(3) props st ex]
  obtain qs q0 m er where r: "walk_names (findFiles_fn (rooted_path ds)) path ?es st
                 = (Some er, st @ map (\<lambda>q. join_slash (pre @ q)) qs)"
      "sorted_wrt (<) qs" "entry_at (Directory ?es) q0 = Some m" "err_of m = Some er"
      "\<forall>q\<in>errors_under (Directory ?es). q0 \<le> q"
      "set qs = {q \<in> files_under (Directory ?es). q < q0}"
    by blast
  have ne: "q0 \<noteq> []" using r(3,4) by auto
  have d': "distinct (map fst ?es)" using st by (simp add: strict_sorted_iff)
  have se: "set ?es = set es" by simp
  have "entry_at (Directory ?es) q0 = entry_at (Directory es) q0"
    using d d' se ne by (rule entry_at_perm)
  with r(3) have lk: "entry_at (Directory es) q0 = Some m" by simp
  have fu: "files_under (Directory ?es) = files_under (Directory es)"
    using d d' by (intro files_under_perm) simp_all
  have eu: "errors_under (Directory ?es) = errors_under (Directory es)"
    using d d' by (intro errors_under_perm) simp_all
  have run: "walk (findFiles_fn (rooted_path ds)) path (Directory es) st
               = (Some er, st @ map (\<lambda>q. join_slash (pre @ q)) qs)"
    using fn r(1) by simp
  from r(5) eu have least: "\<forall>q\<in>errors_under (Directory es). q0 \<le> q" by simp
  from r(6) fu have st': "set qs = {q \<in> files_under (Directory es). q < q0}" by simp
  show ?case
    apply (intro exI conjI)
         apply (rule run)
        apply (rule r(2))
       apply (rule lk)
      apply (rule r(4))
     apply (rule least)
    apply (rule st')
    done
next
  case (3 path er st)
  have "walk (findFiles_fn (rooted_path ds)) path (Unlistable er) st
          = (Some er, st @ map (\<lambda>q. join_slash (pre @ q)) [])
        \<and> sorted_wrt (<) ([]::string list list)
        \<and> entry_at (Unlistable er) [] = Some (Unlistable er) \<and> err_of (Unlistable er) = Some er
        \<and> (\<forall>q\<in>errors_under (Unlistable er). [] \<le> q)
        \<and> set [] = {q \<in> files_under (Unlistable er). q < []}"
    by (simp add: findFiles_fn_error)
  then show ?case by blast
next
  case (4 path er st)
  have "walk (findFiles_fn (rooted_path ds)) path (Unstattable er) st
          = (Some er, st @ map (\<lambda>q. join_slash (pre @ q)) [])
        \<and> sorted_wrt (<) ([]::string list list)
        \<and> entry_at (Unstattable er) [] = Some (Unstattable er) \<and> err_of (Unstattable er) = Some er
        \<and> (\<forall>q\<in>errors_under (Unstattable er). [] \<le> q)
        \<and> set [] = {q \<in> files_under (Unstattable er). q < []}"
    by (simp add: findFiles_fn_error)
  then show ?case by blast
next
  case (5 path st)
  then show ?case by simp
next
  case (6 path name n es st)
  from 6(5) have nm: "normal name" and wfn: "well_formed n"
    and rest: "\<forall>e\<in>set es. normal (fst e) \<and> well_formed (snd e)"
    by simp_all
  from 6(6) have lt: "\<forall>x\<in>set es. name < fst x" and srt: "sorted_wrt (<) (map fst es)"
    by simp_all
  then have fresh: "name \<notin> fst ` set es" by auto
  have pre': "\<forall>e\<in>set (pre @ [name]). normal e" using 6(4) nm by simp
  have "\<forall>e\<in>set (ds @ pre). normal e" using ds 6(4) by auto
  then have jp: "Join [path, name] = rooted_path (ds @ pre @ [name])"
    using 6(3) nm Join_rooted_name [of "ds @ pre" name] by simp
  have later: "name < name'" if "q = name' # q'" "name' \<in> fst ` set es" for q name' q'
    using that lt by auto
  have fu: "files_under (Directory ((name, n) # es))
              = Cons name ` files_under n \<union> files_under (Directory es)"
    using fresh by (rule files_under_Cons)
  have eu: "errors_under (Directory ((name, n) # es))
              = Cons name ` errors_under n \<union> errors_under (Directory es)"
    using fresh by (rule errors_under_Cons)
  show ?case
  proof (cases "has_error n")
    case True
    from 6(1) [OF jp pre' wfn True]
    obtain qs1 q1 m er where
      r: "walk (findFiles_fn (rooted_path ds)) (Join [path, name]) n st
            = (Some er, st @ map (\<lambda>q. join_slash ((pre @ [name]) @ q)) qs1)"
        "sorted_wrt (<) qs1" "entry_at n q1 = Some m" "err_of m = Some er"
        "\<forall>q\<in>errors_under n. q1 \<le> q" "set qs1 = {q \<in> files_under n. q < q1}"
      by blast
    let ?qs = "map (Cons name) qs1"
    let ?q0 = "name # q1"
    have run: "walk_names (findFiles_fn (rooted_path ds)) path ((name, n) # es) st
                 = (Some er, st @ map (\<lambda>q. join_slash (pre @ q)) ?qs)"
      using r(1) by (simp add: comp_def)
    have srt': "sorted_wrt (<) ?qs"
      using r(2) by (simp add: sorted_wrt_map)
    have lk: "entry_at (Directory ((name, n) # es)) ?q0 = Some m"
      using r(3) by simp
    have least: "\<forall>q\<in>errors_under (Directory ((name, n) # es)). ?q0 \<le> q"
    proof
      fix q
      assume "q \<in> errors_under (Directory ((name, n) # es))"
      with eu consider q' where "q = name # q'" "q' \<in> errors_under n"
        | "q \<in> errors_under (Directory es)"
        by auto
      then show "?q0 \<le> q"
      proof cases
        case 1
        with r(5) show ?thesis by simp
      next
        case 2
        then obtain name' q' where q: "q = name' # q'" "name' \<in> fst ` set es"
          using errors_under_head by blast
        then have "name < name'" by (rule later)
        with q show ?thesis by simp
      qed
    qed
    have none: "{q \<in> files_under (Directory es). q < ?q0} = {}"
    proof -
      have "\<not> q < ?q0" if "q \<in> files_under (Directory es)" for q
      proof -
        from that obtain name' q' where q: "q = name' # q'" "name' \<in> fst ` set es"
          using files_under_head by blast
        then have "name < name'" by (rule later)
        with q show ?thesis by auto
      qed
      then show ?thesis by blast
    qed
    have "set ?qs = Cons name ` {q \<in> files_under n. q < q1}" using r(6) by simp
    also have "\<dots> = {q \<in> Cons name ` files_under n. q < ?q0}" by auto
    also have "\<dots> = {q \<in> Cons name ` files_under n \<union> files_under (Directory es). q < ?q0}"
      using none by blast
    finally have st: "set ?qs = {q \<in> files_under (Directory ((name, n) # es)). q < ?q0}"
      using fu by simp
    show ?thesis
      apply (intro exI conjI)
           apply (rule run)
          apply (rule srt')
         apply (rule lk)
        apply (rule r(4))
       apply (rule least)
      apply (rule st)
      done
  next
    case False
    have ne: "IsDir n \<or> pre @ [name] \<noteq> []" by simp
    from walk_lists(1) [OF ds jp pre' wfn False ne, of st]
    obtain qs1 where q1: "walk (findFiles_fn (rooted_path ds)) (Join [path, name]) n st
                 = (None, st @ map (\<lambda>q. join_slash ((pre @ [name]) @ q)) qs1)"
      "sorted_wrt (<) qs1" "set qs1 = files_under n"
      by auto
    from 6(7) False have ex: "\<exists>e\<in>set es. has_error (snd e)" by simp
    from 6(2) [OF q1(1) [symmetric] refl 6(3) 6(4) rest srt ex]
    obtain qs2 q0 m er where
      r: "walk_names (findFiles_fn (rooted_path ds)) path es
                          (st @ map (\<lambda>q. join_slash ((pre @ [name]) @ q)) qs1)
                 = (Some er, (st @ map (\<lambda>q. join_slash ((pre @ [name]) @ q)) qs1)
                           @ map (\<lambda>q. join_slash (pre @ q)) qs2)"
        "sorted_wrt (<) qs2" "entry_at (Directory es) q0 = Some m" "err_of m = Some er"
        "\<forall>q\<in>errors_under (Directory es). q0 \<le> q"
        "set qs2 = {q \<in> files_under (Directory es). q < q0}"
      by blast
    from r(3,4) have "q0 \<in> errors_under (Directory es)"
      by (auto simp add: errors_under_def)
    then obtain name' q' where q0: "q0 = name' # q'" "name' \<in> fst ` set es"
      using errors_under_head by blast
    then have nl: "name < name'" by (rule later)
    then have neq: "name' \<noteq> name" by auto
    let ?qs = "map (Cons name) qs1 @ qs2"
    have run: "walk_names (findFiles_fn (rooted_path ds)) path ((name, n) # es) st
               = (Some er, st @ map (\<lambda>q. join_slash (pre @ q)) ?qs)"
      using q1(1) r(1) by (simp add: comp_def)
    have cross: "\<forall>x\<in>set (map (Cons name) qs1). \<forall>y\<in>set qs2. x < y"
    proof (intro ballI)
      fix x y
      assume x: "x \<in> set (map (Cons name) qs1)" and y: "y \<in> set qs2"
      from y r(6) obtain name'' q'' where y': "y = name'' # q''" "name'' \<in> fst ` set es"
        using files_under_head by blast
      then have "name < name''" by (rule later)
      with x y' show "x < y" by auto
    qed
    have "sorted_wrt (<) (map (Cons name) qs1)"
      using q1(2) by (simp add: sorted_wrt_map)
    with r(2) cross have srt': "sorted_wrt (<) ?qs"
      by (simp add: sorted_wrt_append)
    have lk: "entry_at (Directory ((name, n) # es)) q0 = Some m"
      using r(3) q0(1) neq by simp
    have "errors_under n = {}" using False by (rule errors_under_none)
    with eu r(5) have least: "\<forall>q\<in>errors_under (Directory ((name, n) # es)). q0 \<le> q"
      by simp
    have all: "{q \<in> Cons name ` files_under n. q < q0} = Cons name ` files_under n"
      using q0(1) nl by auto
    have "set ?qs = Cons name ` files_under n \<union> {q \<in> files_under (Directory es). q < q0}"
      using q1(3) r(6) by simp
    also have "\<dots> = {q \<in> Cons name ` files_under n. q < q0}
                       \<union> {q \<in> files_under (Directory es). q < q0}"
      using all by simp
    also have "\<dots> = {q \<in> Cons name ` files_under n \<union> files_under (Directory es). q < q0}"
      by blast
    finally have st: "set ?qs = {q \<in> files_under (Directory ((name, n) # es)). q < q0}"
      using fu by simp
    show ?thesis
      apply (intro exI conjI)
           apply (rule run)
          apply (rule srt')
         apply (rule lk)
        apply (rule r(4))
       apply (rule least)
      apply (rule st)
      done
  qed
qed

lemma findFiles_stops:
  assumes "\<forall>e\<in>set ds. normal e" "well_formed fs" "has_error fs"
  shows "\<exists>qs q0 m er. findFiles fs (rooted_path ds) = (map join_slash qs, Some er)
            \<and> entry_at fs q0 = Some m \<and> err_of m = Some er
            \<and> (\<forall>q\<in>errors_under fs. q0 \<le> q)
            \<and> sorted_wrt (<) qs
            \<and> set qs = {q \<in> files_under fs. q < q0}"
proof -
  have p: "rooted_path ds = rooted_path (ds @ [])" by simp
  have n: "\<forall>e\<in>set ([]::string list). normal e" by simp
  from walk_stops(1) [OF assms(1) p n assms(2) assms(3), of "[]"]
  obtain qs q0 m er where r: "walk (findFiles_fn (rooted_path ds)) (rooted_path ds) fs []
                     = (Some er, [] @ map (\<lambda>q. join_slash ([] @ q)) qs)"
    "sorted_wrt (<) qs" "entry_at fs q0 = Some m" "err_of m = Some er"
    "\<forall>q\<in>errors_under fs. q0 \<le> q" "set qs = {q \<in> files_under fs. q < q0}"
    by blast
  from r(1) have run: "findFiles fs (rooted_path ds) = (map join_slash qs, Some er)"
    by (simp add: findFiles_def)
  show ?thesis
    apply (intro exI conjI)
         apply (rule run)
        apply (rule r(3))
       apply (rule r(4))
      apply (rule r(5))
     apply (rule r(2))
    apply (rule r(6))
    done
qed


section \<open>Claims on the File Enumerator\<close>




text \<open>
  Claim C9, as amended (enumeration errors).  If the walk cannot read an entry under the
  root (\<^verbatim>\<open>Lstat\<close> fails on it, or it is a directory whose names cannot be listed), or the
  root itself does not exist, then \<^verbatim>\<open>findFiles\<close> returns an error.  On a well-formed tree
  under an absolute root the walk stops at the first unreadable entry in its order, which
  is the lexical order of the positions (a directory before its contents, the entries of a
  directory by name): the error returned is the error of that entry, at the least position
  \<open>q0\<close> of \<open>errors_under\<close>, and the list returned with it is not empty in general: it holds
  exactly the paths of the entries that are not directories and come before \<open>q0\<close>, in that
  order, and none that comes after.  A run that has passed its checks ignores the list,
  prints the error and exits with status 1, with no event at all: the selector is not
  started and no file is touched.
\<close>

theorem enumeration_error:
  assumes "has_error fs"
  shows "(\<exists>er. snd (findFiles fs dir) = Some er)
       \<and> (well_formed fs \<and> (\<forall>e\<in>set ds. normal e) \<longrightarrow>
            (\<exists>qs q0 m er. findFiles fs (rooted_path ds) = (map join_slash qs, Some er)
               \<and> entry_at fs q0 = Some m \<and> err_of m = Some er
               \<and> (\<forall>q\<in>errors_under fs. q0 \<le> q)
               \<and> sorted_wrt (<) qs
               \<and> set qs = {q \<in> files_under fs. q < q0}))
       \<and> (passes_checks w fl S T \<and> tree_at w S = fs \<longrightarrow>
            (\<exists>er. snd (findFiles fs S) = Some er
               \<and> entry_point r w fl p =
                   (Return 1,
                    p\<lparr>stdout := stdout p @
                        [(case r of MainGo \<Rightarrow> ''error finding files: ''
                                  | Part000 \<Rightarrow> ''Error finding files: '') @ er @ nl]\<rparr>)))"
proof -
  have c1: "\<exists>er. snd (findFiles fs dir) = Some er"
    using assms by (rule findFiles_error)
  have c2: "well_formed fs \<and> (\<forall>e\<in>set ds. normal e) \<longrightarrow>
            (\<exists>qs q0 m er. findFiles fs (rooted_path ds) = (map join_slash qs, Some er)
               \<and> entry_at fs q0 = Some m \<and> err_of m = Some er
               \<and> (\<forall>q\<in>errors_under fs. q0 \<le> q)
               \<and> sorted_wrt (<) qs
               \<and> set qs = {q \<in> files_under fs. q < q0})"
  proof
    assume "well_formed fs \<and> (\<forall>e\<in>set ds. normal e)"
    then have w: "well_formed fs" and n: "\<forall>e\<in>set ds. normal e" by simp_all
    from n w assms
    show "\<exists>qs q0 m er. findFiles fs (rooted_path ds) = (map join_slash qs, Some er)
               \<and> entry_at fs q0 = Some m \<and> err_of m = Some er
               \<and> (\<forall>q\<in>errors_under fs. q0 \<le> q)
               \<and> sorted_wrt (<) qs
               \<and> set qs = {q \<in> files_under fs. q < q0}"
      by (rule findFiles_stops)
  qed
  have c3: "passes_checks w fl S T \<and> tree_at w S = fs \<longrightarrow>
            (\<exists>er. snd (findFiles fs S) = Some er
               \<and> entry_point r w fl p =
                   (Return 1,
                    p\<lparr>stdout := stdout p @
                        [(case r of MainGo \<Rightarrow> ''error finding files: ''
                                  | Part000 \<Rightarrow> ''Error finding files: '') @ er @ nl]\<rparr>))"
  proof
    assume "passes_checks w fl S T \<and> tree_at w S = fs"
    then have ch: "passes_checks w fl S T" and t: "tree_at w S = fs" by simp_all
    from findFiles_error [OF assms] obtain er where er: "snd (findFiles fs S) = Some er"
      by blast
    then obtain found where "findFiles fs S = (found, Some er)"
      by (cases "findFiles fs S") auto
    with ch t have "entry_point r w fl p =
                   (Return 1,
                    p\<lparr>stdout := stdout p @
                        [(case r of MainGo \<Rightarrow> ''error finding files: ''
                                  | Part000 \<Rightarrow> ''Error finding files: '') @ er @ nl]\<rparr>)"
      by (cases r) (simp_all add: main_def main_p0_def passes_checks_def Printf_def)
    with er show "\<exists>er. snd (findFiles fs S) = Some er
               \<and> entry_point r w fl p =
                   (Return 1,
                    p\<lparr>stdout := stdout p @
                        [(case r of MainGo \<Rightarrow> ''error finding files: ''
                                  | Part000 \<Rightarrow> ''Error finding files: '') @ er @ nl]\<rparr>)"
      by blast
  qed
  show ?thesis by (rule conjI [OF c1 conjI [OF c2 c3]])
qed

text \<open>
  A search root \<^verbatim>\<open>/s\<close> with the file \<^verbatim>\<open>a.txt\<close> and the directory \<^verbatim>\<open>b\<close>, which cannot be
  listed: the walk meets \<^verbatim>\<open>a.txt\<close> first, then stops at \<^verbatim>\<open>b\<close>.  And a root that does
  not exist.
\<close>

theorem enumeration_error_witness:
  "has_error tree_locked \<and> well_formed tree_locked \<and> normal ''s''
   \<and> rooted_path [''s''] = ''/s''
   \<and> (\<exists>qs q0 m. findFiles tree_locked ''/s''
                    = (map join_slash qs, Some ''open /s/b: permission denied'')
          \<and> entry_at tree_locked q0 = Some m
          \<and> err_of m = Some ''open /s/b: permission denied''
          \<and> sorted_wrt (<) qs
          \<and> set qs = {q \<in> files_under tree_locked. q < q0})
   \<and> findFiles tree_locked ''/s'' = ([''a.txt''], Some ''open /s/b: permission denied'')
   \<and> entry_at tree_locked [''b''] = Some (Unlistable ''open /s/b: permission denied'')
   \<and> entry_point MainGo (world_with tree_locked) flags0 proc0 =
       (Return 1, proc0\<lparr>stdout := [''error finding files: open /s/b: permission denied'' @ nl]\<rparr>)
   \<and> snd (findFiles (Unstattable ''lstat /s: no such file or directory'') ''/s'')
       = Some ''lstat /s: no such file or directory''"
proof -
  have e: "has_error tree_locked" "has_error (Unstattable ''lstat /s: no such file or directory'')"
    by (simp_all add: tree_locked_def)
  have wt: "well_formed tree_locked" by (simp add: tree_locked_def normal_def)
  have nm: "normal ''s''" by (simp add: normal_def)
  then have ds: "\<forall>e\<in>set [''s'']. normal e" by simp
  have rp: "rooted_path [''s''] = ''/s''" by (simp add: rooted_path_def)
  have t: "tree_at (world_with tree_locked) ''/s'' = tree_locked"
    by (simp add: world_with_fields)
  note th = enumeration_error [OF e(1), of "''/s''" "[''s'']" "world_with tree_locked" flags0
                                 "''/s''" "''/repo''" MainGo proc0]
  from th [THEN conjunct2, THEN conjunct1, THEN mp, OF conjI [OF wt ds]]
  obtain qs q0 m er where
    r: "findFiles tree_locked (rooted_path [''s'']) = (map join_slash qs, Some er)"
      "entry_at tree_locked q0 = Some m" "err_of m = Some er"
      "sorted_wrt (<) qs" "set qs = {q \<in> files_under tree_locked. q < q0}"
    by blast
  from r(1) have er: "er = ''open /s/b: permission denied''"
    by (simp add: rp findFiles_locked)
  have stop: "\<exists>qs q0 m. findFiles tree_locked ''/s''
                    = (map join_slash qs, Some ''open /s/b: permission denied'')
          \<and> entry_at tree_locked q0 = Some m
          \<and> err_of m = Some ''open /s/b: permission denied''
          \<and> sorted_wrt (<) qs
          \<and> set qs = {q \<in> files_under tree_locked. q < q0}"
    apply (intro exI conjI)
        apply (rule r(1) [unfolded rp er])
       apply (rule r(2))
      apply (rule r(3) [unfolded er])
     apply (rule r(4))
    apply (rule r(5))
    done
  have at: "entry_at tree_locked [''b''] = Some (Unlistable ''open /s/b: permission denied'')"
    by (simp add: tree_locked_def)
  from th [THEN conjunct2, THEN conjunct2] checks0' t
  have ep: "entry_point MainGo (world_with tree_locked) flags0 proc0 =
       (Return 1, proc0\<lparr>stdout := [''error finding files: open /s/b: permission denied'' @ nl]\<rparr>)"
    by (auto simp add: findFiles_locked proc0_def simp del: entry_point.simps)
  from enumeration_error [OF e(2), of "''/s''"]
  have ms: "snd (findFiles (Unstattable ''lstat /s: no such file or directory'') ''/s'')
       = Some ''lstat /s: no such file or directory''"
    by (simp add: findFiles_missing)
  show ?thesis
    by (intro conjI) (rule e(1) wt nm rp stop findFiles_locked at ep ms)+
qed

text \<open>
  Against the claim as stated: \<^verbatim>\<open>findFiles\<close> hands its caller the paths it had collected
  before the failure (here \<^verbatim>\<open>a.txt\<close>) together with the error.
\<close>

theorem partial_list_returned:
  "findFiles tree_locked ''/s'' = ([''a.txt''], Some ''open /s/b: permission denied'')"
  by (rule findFiles_locked)

end
